theory Spec2Isabelle
  imports
    Complex_Main
    "HOL-Library.Char_ord"
    "HOL-Library.List_Lexorder"
    "HOL-Library.Option_ord"
    "HOL-Library.Multiset"
begin

section \<open>Card drop monitor: store, reconciliation and alert windows\<close>

text \<open>
  A shallow embedding of \<^verbatim>\<open>card_drop_monitor.py\<close> (class \<^verbatim>\<open>CardDropMonitor\<close>) and
  \<^verbatim>\<open>desktop_notifier.py\<close> (class \<^verbatim>\<open>DesktopNotifier\<close>). The SQLite database is an
  explicit store value passed through every operation; every call of
  \<^verbatim>\<open>datetime.now()\<close> is a reading of an explicit clock; exceptions are values.
\<close>

subsection \<open>Python's datetime\<close>

text \<open>
  A naive \<^verbatim>\<open>datetime\<close> is the record of its fields. A \<^verbatim>\<open>timedelta\<close> is a number of
  microseconds; its attribute \<^verbatim>\<open>days\<close> is the floor of the quotient by one day.
\<close>

type_synonym timedelta = int

record datetime =
  year :: nat
  month :: nat
  day :: nat
  hour :: nat
  minute :: nat
  second :: nat
  microsecond :: nat

datatype py_error = ValueError | TypeError

definition td_hours :: "int \<Rightarrow> timedelta" where
  "td_hours h = h * 3600000000"

definition td_days :: "int \<Rightarrow> timedelta" where
  "td_days d = d * 86400000000"

definition days :: "timedelta \<Rightarrow> int" where
  "days td = td div 86400000000"

definition is_leap :: "nat \<Rightarrow> bool" where
  "is_leap y = (y mod 4 = 0 \<and> (y mod 100 \<noteq> 0 \<or> y mod 400 = 0))"

definition days_in_month :: "nat \<Rightarrow> nat \<Rightarrow> nat" where
  "days_in_month y m =
     (if m = 2 then (if is_leap y then 29 else 28)
      else if m = 4 \<or> m = 6 \<or> m = 9 \<or> m = 11 then 30 else 31)"

definition days_before_year :: "nat \<Rightarrow> nat" where
  "days_before_year y = (y - 1) * 365 + (y - 1) div 4 - (y - 1) div 100 + (y - 1) div 400"

definition days_before_month :: "nat \<Rightarrow> nat \<Rightarrow> nat" where
  "days_before_month y m = sum_list (map (days_in_month y) [1 ..< m])"

definition toordinal :: "datetime \<Rightarrow> nat" where
  "toordinal dt = days_before_year (year dt) + days_before_month (year dt) (month dt) + day dt"

definition to_microseconds :: "datetime \<Rightarrow> int" where
  "to_microseconds dt =
     (((int (toordinal dt) * 24 + int (hour dt)) * 60 + int (minute dt)) * 60 + int (second dt))
       * 1000000 + int (microsecond dt)"

text \<open>
  The constructor \<^verbatim>\<open>datetime(y, m, d, H, M, S, us)\<close> raises \<^verbatim>\<open>ValueError\<close> on a field
  out of range.
\<close>

definition make_datetime ::
  "nat \<Rightarrow> nat \<Rightarrow> nat \<Rightarrow> nat \<Rightarrow> nat \<Rightarrow> nat \<Rightarrow> nat \<Rightarrow> py_error + datetime" where
  "make_datetime y m d H M S us =
     (if 1 \<le> y \<and> y \<le> 9999 \<and> 1 \<le> m \<and> m \<le> 12 \<and> 1 \<le> d \<and> d \<le> days_in_month y m
         \<and> H < 24 \<and> M < 60 \<and> S < 60 \<and> us < 1000000
      then Inr \<lparr>year = y, month = m, day = d, hour = H, minute = M, second = S,
                microsecond = us\<rparr>
      else Inl ValueError)"

subsubsection \<open>Decimal digits\<close>

definition is_digit :: "char \<Rightarrow> bool" where
  "is_digit c = (c \<in> set ''0123456789'')"

definition digit_val :: "char \<Rightarrow> nat" where
  "digit_val c = of_char c - 48"

definition parse_digits :: "string \<Rightarrow> nat option" where
  "parse_digits s =
     (if s \<noteq> [] \<and> list_all is_digit s
      then Some (foldl (\<lambda>a c. 10 * a + digit_val c) 0 s) else None)"

definition digit_char :: "nat \<Rightarrow> char" where
  "digit_char d = ''0123456789'' ! (d mod 10)"

text \<open>The last \<open>w\<close> decimal digits of \<open>n\<close>, as the format \<^verbatim>\<open>%0wd\<close> prints \<open>n < 10 ^ w\<close>.\<close>

fun zero_pad :: "nat \<Rightarrow> nat \<Rightarrow> string" where
  "zero_pad 0 n = []"
| "zero_pad (Suc w) n = zero_pad w (n div 10) @ [digit_char n]"

subsubsection \<open>isoformat and fromisoformat\<close>

text \<open>
  \<^verbatim>\<open>datetime.isoformat()\<close> of a naive datetime: \<^verbatim>\<open>YYYY-MM-DDTHH:MM:SS\<close>, followed by
  \<^verbatim>\<open>.ffffff\<close> when the microsecond field is not zero.
\<close>

definition isoformat :: "datetime \<Rightarrow> string" where
  "isoformat dt =
     zero_pad 4 (year dt) @ ''-'' @ zero_pad 2 (month dt) @ ''-'' @ zero_pad 2 (day dt) @ ''T''
       @ zero_pad 2 (hour dt) @ '':'' @ zero_pad 2 (minute dt) @ '':'' @ zero_pad 2 (second dt)
       @ (if microsecond dt = 0 then [] else ''.'' @ zero_pad 6 (microsecond dt))"

text \<open>
  \<^verbatim>\<open>datetime.fromisoformat\<close> reads the format that \<^verbatim>\<open>isoformat\<close> emits,
  \<^verbatim>\<open>YYYY-MM-DD[*HH[:MM[:SS[.fff[fff]]]][+HH:MM[:SS[.ffffff]]]]\<close>, where \<^verbatim>\<open>*\<close> is any
  single character, and raises \<^verbatim>\<open>ValueError\<close> on anything else (the format documented
  up to Python 3.10; later versions read further ISO 8601 spellings as well). The result
  carries the UTC offset when the string has one (an aware datetime).
\<close>

definition parse_isoformat_date :: "string \<Rightarrow> (nat \<times> nat \<times> nat) option" where
  "parse_isoformat_date s =
     (if length s = 10 \<and> s ! 4 = CHR ''-'' \<and> s ! 7 = CHR ''-''
      then (case (parse_digits (take 4 s), parse_digits (take 2 (drop 5 s)),
                  parse_digits (drop 8 s)) of
              (Some y, Some m, Some d) \<Rightarrow> Some (y, m, d)
            | _ \<Rightarrow> None)
      else None)"

definition parse_fraction :: "string \<Rightarrow> nat option" where
  "parse_fraction s =
     (case s of
        [] \<Rightarrow> Some 0
      | c # f \<Rightarrow>
          if c \<noteq> CHR ''.'' then None
          else if length f = 6 then parse_digits f
          else if length f = 3 then map_option (\<lambda>n. n * 1000) (parse_digits f)
          else None)"

definition parse_hh_mm_ss_ff :: "string \<Rightarrow> (nat \<times> nat \<times> nat \<times> nat) option" where
  "parse_hh_mm_ss_ff t =
     (case parse_digits (take 2 t) of
        None \<Rightarrow> None
      | Some H \<Rightarrow>
          if length t < 2 then None
          else if drop 2 t = [] then Some (H, 0, 0, 0)
          else if t ! 2 \<noteq> CHR '':'' then None
          else (case parse_digits (take 2 (drop 3 t)) of
                  None \<Rightarrow> None
                | Some M \<Rightarrow>
                    if length t < 5 then None
                    else if drop 5 t = [] then Some (H, M, 0, 0)
                    else if t ! 5 \<noteq> CHR '':'' then None
                    else (case parse_digits (take 2 (drop 6 t)) of
                            None \<Rightarrow> None
                          | Some S \<Rightarrow>
                              if length t < 8 then None
                              else (case parse_fraction (drop 8 t) of
                                      None \<Rightarrow> None
                                    | Some us \<Rightarrow> Some (H, M, S, us)))))"

definition split_offset :: "string \<Rightarrow> string \<times> (int \<times> string) option" where
  "split_offset t =
     (if CHR ''-'' \<in> set t
      then (takeWhile (\<lambda>c. c \<noteq> CHR ''-'') t,
            Some (- 1, drop 1 (dropWhile (\<lambda>c. c \<noteq> CHR ''-'') t)))
      else if CHR ''+'' \<in> set t
      then (takeWhile (\<lambda>c. c \<noteq> CHR ''+'') t,
            Some (1, drop 1 (dropWhile (\<lambda>c. c \<noteq> CHR ''+'') t)))
      else (t, None))"

definition parse_offset :: "int \<times> string \<Rightarrow> timedelta option" where
  "parse_offset z =
     (case z of (sign, tz) \<Rightarrow>
        if length tz \<noteq> 5 \<and> length tz \<noteq> 8 \<and> length tz \<noteq> 15 then None
        else (case parse_hh_mm_ss_ff tz of
                None \<Rightarrow> None
              | Some (H, M, S, us) \<Rightarrow>
                  (let off = ((int H * 60 + int M) * 60 + int S) * 1000000 + int us
                   in if off < 86400000000 then Some (sign * off) else None)))"

definition parse_isoformat_time ::
  "string \<Rightarrow> ((nat \<times> nat \<times> nat \<times> nat) \<times> timedelta option) option" where
  "parse_isoformat_time t =
     (if length t < 2 then None
      else (case split_offset t of (timestr, z) \<Rightarrow>
              (case parse_hh_mm_ss_ff timestr of
                 None \<Rightarrow> None
               | Some comps \<Rightarrow>
                   (case z of
                      None \<Rightarrow> Some (comps, None)
                    | Some zz \<Rightarrow>
                        (case parse_offset zz of
                           None \<Rightarrow> None
                         | Some off \<Rightarrow> Some (comps, Some off))))))"

definition fromisoformat :: "string \<Rightarrow> py_error + (datetime \<times> timedelta option)" where
  "fromisoformat s =
     (if length s < 10 then Inl ValueError
      else (case parse_isoformat_date (take 10 s) of
              None \<Rightarrow> Inl ValueError
            | Some (y, m, d) \<Rightarrow>
                if length s = 10
                then (case make_datetime y m d 0 0 0 0 of
                        Inl e \<Rightarrow> Inl e
                      | Inr dt \<Rightarrow> Inr (dt, None))
                else (case parse_isoformat_time (drop 11 s) of
                        None \<Rightarrow> Inl ValueError
                      | Some ((H, M, S, us), off) \<Rightarrow>
                          (case make_datetime y m d H M S us of
                             Inl e \<Rightarrow> Inl e
                           | Inr dt \<Rightarrow> Inr (dt, off)))))"

text \<open>
  \<^verbatim>\<open>drop_datetime - now\<close> where \<^verbatim>\<open>now\<close> is naive: subtracting a naive datetime from an
  aware one raises \<^verbatim>\<open>TypeError\<close>.
\<close>

definition sub_now :: "datetime \<times> timedelta option \<Rightarrow> datetime \<Rightarrow> py_error + timedelta" where
  "sub_now p now =
     (case p of
        (dt, None) \<Rightarrow> Inr (to_microseconds dt - to_microseconds now)
      | (dt, Some off) \<Rightarrow> Inl TypeError)"

text \<open>
  The clock: \<open>clk k\<close> is the value of the \<open>k\<close>-th call of \<^verbatim>\<open>datetime.now()\<close> that an
  operation makes, counted from 0.
\<close>

type_synonym clock = "nat \<Rightarrow> datetime"

subsection \<open>The database\<close>

text \<open>
  Table \<^verbatim>\<open>drops\<close> as \<^verbatim>\<open>init_database\<close> creates it. Column \<^verbatim>\<open>id\<close> is
  \<open>row_id\<close>; the columns declared \<^verbatim>\<open>NOT NULL\<close> hold a value, the others an option
  (\<open>None\<close> is SQL \<^verbatim>\<open>NULL\<close>). \<^verbatim>\<open>status\<close> and \<^verbatim>\<open>notified\<close> are only ever written
  by their column defaults and by \<^verbatim>\<open>mark_as_notified\<close>, so they hold a value too.
\<close>

record drop_row =
  row_id :: int
  product_name :: string
  retailer :: string
  url :: string
  price :: "real option"
  drop_date :: "string option"
  drop_time :: "string option"
  status :: string
  discovered_date :: string
  last_checked :: string
  notified :: int

record notification_row =
  notification_id :: int
  drop_id :: int
  notification_date :: string
  notification_type :: string

text \<open>
  The store: both tables in rowid order, and the \<^verbatim>\<open>sqlite_sequence\<close> counters that
  \<^verbatim>\<open>AUTOINCREMENT\<close> keeps (the largest rowid ever used in each table).
\<close>

record store =
  drops :: "drop_row list"
  notifications :: "notification_row list"
  drops_seq :: int
  notifications_seq :: int

definition empty_store :: store where
  "empty_store = \<lparr>drops = [], notifications = [], drops_seq = 0, notifications_seq = 0\<rparr>"

text \<open>
  A scraped record, the dictionary that the \<^verbatim>\<open>search_*\<close> methods build and
  \<^verbatim>\<open>save_drop\<close> receives. \<open>None\<close> is Python's \<^verbatim>\<open>None\<close>, bound as \<^verbatim>\<open>NULL\<close>.
\<close>

record listing =
  l_name :: "string option"
  l_retailer :: "string option"
  l_url :: "string option"
  l_price :: "real option"
  l_drop_date :: "string option"

datatype sql_error = IntegrityError

definition same_key :: "listing \<Rightarrow> drop_row \<Rightarrow> bool" where
  "same_key l r =
     (l_name l = Some (product_name r) \<and> l_retailer l = Some (retailer r)
        \<and> l_url l = Some (url r))"

definition next_rowid :: "int \<Rightarrow> int list \<Rightarrow> int" where
  "next_rowid seq ids = fold max ids seq + 1"

subsubsection \<open>save_drop\<close>

text \<open>
  \<^verbatim>\<open>INSERT OR REPLACE INTO drops (product_name, retailer, url, price, drop_date,
  discovered_date, last_checked) VALUES (...)\<close>. A \<^verbatim>\<open>NULL\<close> in a \<^verbatim>\<open>NOT NULL\<close>
  column without default aborts the statement with \<^verbatim>\<open>IntegrityError\<close>. A row that
  conflicts on \<^verbatim>\<open>UNIQUE(product_name, retailer, url)\<close> is deleted and the new row is
  inserted under a fresh id, the columns the statement does not name taking their
  defaults. Foreign keys are not enforced (SQLite's default).
\<close>

definition insert_or_replace :: "clock \<Rightarrow> listing \<Rightarrow> store \<Rightarrow> sql_error + store" where
  "insert_or_replace clk l s =
     (case (l_name l, l_retailer l, l_url l) of
        (Some n, Some r, Some u) \<Rightarrow>
          (let i = next_rowid (drops_seq s) (map row_id (drops s));
               new = \<lparr>row_id = i, product_name = n, retailer = r, url = u,
                      price = l_price l, drop_date = l_drop_date l, drop_time = None,
                      status = ''upcoming'', discovered_date = isoformat (clk 0),
                      last_checked = isoformat (clk 1), notified = 0\<rparr>
           in Inr (s\<lparr>drops := filter (\<lambda>row. \<not> same_key l row) (drops s) @ [new],
                       drops_seq := i\<rparr>))
      | _ \<Rightarrow> Inl IntegrityError)"

text \<open>
  The handler of \<^verbatim>\<open>IntegrityError\<close>: \<^verbatim>\<open>UPDATE drops SET price = ?, drop_date = ?,
  last_checked = ? WHERE product_name = ? AND retailer = ? AND url = ?\<close>. A comparison
  with \<^verbatim>\<open>NULL\<close> is never true.
\<close>

definition update_existing :: "datetime \<Rightarrow> listing \<Rightarrow> store \<Rightarrow> store" where
  "update_existing now l s =
     s\<lparr>drops := map (\<lambda>row. if same_key l row
                               then row\<lparr>price := l_price l, drop_date := l_drop_date l,
                                        last_checked := isoformat now\<rparr>
                               else row) (drops s)\<rparr>"

definition save_drop :: "clock \<Rightarrow> listing \<Rightarrow> store \<Rightarrow> store" where
  "save_drop clk l s =
     (case insert_or_replace clk l s of
        Inr s' \<Rightarrow> s'
      | Inl IntegrityError \<Rightarrow> update_existing (clk 2) l s)"

subsubsection \<open>get_all_drops\<close>

text \<open>
  \<^verbatim>\<open>ORDER BY\<close> is an insertion sort on the rows in rowid order, stable, so rows that
  tie on every sort key stay in rowid order (SQL leaves their order open).
\<close>

fun insort_by :: "('a \<Rightarrow> 'a \<Rightarrow> bool) \<Rightarrow> 'a \<Rightarrow> 'a list \<Rightarrow> 'a list" where
  "insort_by le x [] = [x]"
| "insort_by le x (y # ys) = (if le x y then x # y # ys else y # insort_by le x ys)"

fun order_by :: "('a \<Rightarrow> 'a \<Rightarrow> bool) \<Rightarrow> 'a list \<Rightarrow> 'a list" where
  "order_by le [] = []"
| "order_by le (x # xs) = insort_by le x (order_by le xs)"

text \<open>
  \<^verbatim>\<open>ORDER BY drop_date ASC, discovered_date DESC\<close>: text compares bytewise, and
  \<^verbatim>\<open>NULL\<close> is smaller than every value.
\<close>

definition drop_date_asc_discovered_desc :: "drop_row \<Rightarrow> drop_row \<Rightarrow> bool" where
  "drop_date_asc_discovered_desc a b =
     (drop_date a < drop_date b
        \<or> (drop_date a = drop_date b \<and> discovered_date b \<le> discovered_date a))"

text \<open>
  The dictionaries that \<^verbatim>\<open>get_all_drops\<close> returns are the selected rows themselves
  (key \<^verbatim>\<open>name\<close> is \<open>product_name\<close>, key \<^verbatim>\<open>id\<close> is \<open>row_id\<close>; \<open>last_checked\<close> is not
  selected and nothing reads it).
\<close>

definition get_all_drops :: "string \<Rightarrow> store \<Rightarrow> drop_row list" where
  "get_all_drops st s =
     order_by drop_date_asc_discovered_desc (filter (\<lambda>row. status row = st) (drops s))"

subsubsection \<open>mark_as_notified and check_for_alerts\<close>

definition mark_as_notified :: "datetime \<Rightarrow> int \<Rightarrow> store \<Rightarrow> store" where
  "mark_as_notified now i s =
     (let j = next_rowid (notifications_seq s) (map notification_id (notifications s))
      in s\<lparr>drops := map (\<lambda>row. if row_id row = i then row\<lparr>notified := 1\<rparr> else row) (drops s),
           notifications := notifications s @
             [\<lparr>notification_id = j, drop_id = i, notification_date = isoformat now,
               notification_type = ''7-day-alert''\<rparr>],
           notifications_seq := j\<rparr>)"

text \<open>
  The body of the loop of \<^verbatim>\<open>check_for_alerts\<close> for one fetched drop, at clock index
  \<open>k\<close>: whether the drop is appended to \<^verbatim>\<open>alerts\<close>, the store afterwards, and the
  clock index afterwards. Every exception inside \<^verbatim>\<open>try\<close> is swallowed.
\<close>

definition alert_step :: "clock \<Rightarrow> nat \<Rightarrow> drop_row \<Rightarrow> store \<Rightarrow> bool \<times> store \<times> nat" where
  "alert_step clk k d s =
     (case drop_date d of
        None \<Rightarrow> (False, s, k)
      | Some ds \<Rightarrow>
          if ds = [] \<or> notified d \<noteq> 0 then (False, s, k)
          else (case fromisoformat ds of
                  Inl e \<Rightarrow> (False, s, k)
                | Inr p \<Rightarrow>
                    (case sub_now p (clk k) of
                       Inl e \<Rightarrow> (False, s, Suc k)
                     | Inr diff \<Rightarrow>
                         if 0 \<le> days diff \<and> days diff \<le> 7
                         then (True, mark_as_notified (clk (Suc k)) (row_id d) s, Suc (Suc k))
                         else (False, s, Suc k))))"

fun alerts_loop :: "clock \<Rightarrow> nat \<Rightarrow> drop_row list \<Rightarrow> store \<Rightarrow> drop_row list \<times> store" where
  "alerts_loop clk k [] s = ([], s)"
| "alerts_loop clk k (d # ds) s =
     (case alert_step clk k d s of
        (fired, s', k') \<Rightarrow>
          (case alerts_loop clk k' ds s' of
             (alerts, s'') \<Rightarrow> ((if fired then [d] else []) @ alerts, s'')))"

definition check_for_alerts :: "clock \<Rightarrow> store \<Rightarrow> drop_row list \<times> store" where
  "check_for_alerts clk s = alerts_loop clk 0 (get_all_drops ''upcoming'' s) s"

subsection \<open>The desktop notifier\<close>

text \<open>
  The four calls of \<^verbatim>\<open>send_notification\<close> in \<^verbatim>\<open>check_upcoming_drops\<close>, named by
  their titles.
\<close>

datatype notification = Drop_Available_NOW | Drop_Starting_Soon | Drop_Tomorrow | Drop_Next_Week

definition notification_for :: "timedelta \<Rightarrow> notification option" where
  "notification_for time_diff =
     (if td_hours (- 1) < time_diff \<and> time_diff < td_hours 0 then Some Drop_Available_NOW
      else if td_hours 0 < time_diff \<and> time_diff < td_hours 1 then Some Drop_Starting_Soon
      else if td_hours 1 < time_diff \<and> time_diff < td_hours 24 then Some Drop_Tomorrow
      else if td_days 6 < time_diff \<and> time_diff < td_days 7 then Some Drop_Next_Week
      else None)"

text \<open>
  The body of the loop for one fetched row: the notification sent, if any. An exception
  is printed and the loop goes on.
\<close>

definition notify_step :: "datetime \<Rightarrow> drop_row \<Rightarrow> notification option" where
  "notify_step now d =
     (case drop_date d of
        None \<Rightarrow> None
      | Some ds \<Rightarrow>
          if ds = [] then None
          else (case fromisoformat ds of
                  Inl e \<Rightarrow> None
                | Inr p \<Rightarrow>
                    (case sub_now p now of
                       Inl e \<Rightarrow> None
                     | Inr time_diff \<Rightarrow> notification_for time_diff)))"

definition drop_date_asc :: "drop_row \<Rightarrow> drop_row \<Rightarrow> bool" where
  "drop_date_asc a b = (drop_date a \<le> drop_date b)"

text \<open>
  \<^verbatim>\<open>check_upcoming_drops\<close> reads the clock once, writes nothing to the database and
  returns \<^verbatim>\<open>notifications_sent\<close>, the ids of the drops it notified; the model returns
  each id with the notification sent for it.
\<close>

definition check_upcoming_drops :: "clock \<Rightarrow> store \<Rightarrow> (int \<times> notification) list" where
  "check_upcoming_drops clk s =
     List.map_filter (\<lambda>d. map_option (\<lambda>n. (row_id d, n)) (notify_step (clk 0) d))
       (order_by drop_date_asc (filter (\<lambda>row. status row = ''upcoming'') (drops s)))"

definition notifications_sent :: "(int \<times> notification) list \<Rightarrow> int list" where
  "notifications_sent ns = map fst ns"

subsection \<open>extract_date\<close>

text \<open>
  The three patterns of \<^verbatim>\<open>extract_date\<close> are sequences of items, each a character class
  with a greedy repetition \<^verbatim>\<open>{lo,hi}\<close> (\<open>None\<close> for no upper bound). Python's \<^verbatim>\<open>re\<close> matches
  such a sequence by backtracking: the first item takes as many characters as it may, the rest
  is matched after it, and on failure the first item gives one character back.
  \<open>match_items\<close> returns the length of the match found at the start of the string.
  Text is ASCII: \<^verbatim>\<open>\d\<close> is a decimal digit, \<^verbatim>\<open>\w\<close> a letter, a digit or the underscore,
  \<^verbatim>\<open>\s\<close> one of the characters 9 to 13 and 28 to 32.
\<close>

definition is_word :: "char \<Rightarrow> bool" where
  "is_word c =
     (let n = (of_char c :: nat)
      in (48 \<le> n \<and> n \<le> 57) \<or> (65 \<le> n \<and> n \<le> 90) \<or> n = 95 \<or> (97 \<le> n \<and> n \<le> 122))"

definition is_space :: "char \<Rightarrow> bool" where
  "is_space c = (let n = (of_char c :: nat) in (9 \<le> n \<and> n \<le> 13) \<or> (28 \<le> n \<and> n \<le> 32))"

type_synonym item = "(char \<Rightarrow> bool) \<times> nat \<times> nat option"

fun first_some :: "'a option list \<Rightarrow> 'a option" where
  "first_some [] = None"
| "first_some (None # xs) = first_some xs"
| "first_some (Some x # xs) = Some x"

fun match_items :: "item list \<Rightarrow> string \<Rightarrow> nat option" where
  "match_items [] s = Some 0"
| "match_items ((cls, lo, hi) # its) s =
     (let n = length (takeWhile cls s);
          m = (case hi of None \<Rightarrow> n | Some h \<Rightarrow> min h n)
      in first_some (map (\<lambda>k. map_option (\<lambda>j. k + j) (match_items its (drop k s)))
                      (rev [lo ..< Suc m])))"

text \<open>\<^verbatim>\<open>re.search\<close>: the match at the leftmost position that has one; \<^verbatim>\<open>group(0)\<close>.\<close>

fun re_search :: "item list \<Rightarrow> string \<Rightarrow> string option" where
  "re_search its [] = map_option (\<lambda>n. []) (match_items its [])"
| "re_search its (c # cs) =
     (case match_items its (c # cs) of
        Some n \<Rightarrow> Some (take n (c # cs))
      | None \<Rightarrow> re_search its cs)"

text \<open>
  \<^verbatim>\<open>(\d{1,2})/(\d{1,2})/(\d{4})\<close>, \<^verbatim>\<open>(\w+)\s+(\d{1,2}),?\s+(\d{4})\<close> and
  \<^verbatim>\<open>(\d{4})-(\d{2})-(\d{2})\<close>, in the order of \<^verbatim>\<open>date_patterns\<close>.
\<close>

definition mdy_pattern :: "item list" where
  "mdy_pattern = [(is_digit, 1, Some 2), (\<lambda>c. c = CHR ''/'', 1, Some 1), (is_digit, 1, Some 2),
     (\<lambda>c. c = CHR ''/'', 1, Some 1), (is_digit, 4, Some 4)]"

definition month_pattern :: "item list" where
  "month_pattern = [(is_word, 1, None), (is_space, 1, None), (is_digit, 1, Some 2),
     (\<lambda>c. c = CHR '','', 0, Some 1), (is_space, 1, None), (is_digit, 4, Some 4)]"

definition iso_pattern :: "item list" where
  "iso_pattern = [(is_digit, 4, Some 4), (\<lambda>c. c = CHR ''-'', 1, Some 1), (is_digit, 2, Some 2),
     (\<lambda>c. c = CHR ''-'', 1, Some 1), (is_digit, 2, Some 2)]"

definition date_patterns :: "item list list" where
  "date_patterns = [mdy_pattern, month_pattern, iso_pattern]"

text \<open>The loop over the patterns: the first pattern that matches anywhere wins.\<close>

fun first_match :: "item list list \<Rightarrow> string \<Rightarrow> string option" where
  "first_match [] text = None"
| "first_match (pattern # patterns) text =
     (case re_search pattern text of
        Some m \<Rightarrow> Some m
      | None \<Rightarrow> first_match patterns text)"

definition extract_date :: "string \<Rightarrow> string option" where
  "extract_date text = first_match date_patterns text"

subsection \<open>extract_price and the scraped record\<close>

text \<open>
  \<^verbatim>\<open>re.search(r'\$?(\d+\.?\d*)', text.replace(',', ''))\<close> and \<^verbatim>\<open>float(match.group(1))\<close>.
  Group 1 is the match without its leading dollar sign. The float is represented by the
  decimal number it is parsed from (prices are only stored and read back).
\<close>

definition price_pattern :: "item list" where
  "price_pattern = [(\<lambda>c. c = CHR ''$'', 0, Some 1), (is_digit, 1, None),
     (\<lambda>c. c = CHR ''.'', 0, Some 1), (is_digit, 0, None)]"

definition group1 :: "string \<Rightarrow> string" where
  "group1 m = (case m of [] \<Rightarrow> [] | c # cs \<Rightarrow> if c = CHR ''$'' then cs else m)"

definition decimal_value :: "string \<Rightarrow> nat" where
  "decimal_value ds = foldl (\<lambda>a c. 10 * a + digit_val c) 0 ds"

definition float_of :: "string \<Rightarrow> real" where
  "float_of tok =
     (let ip = takeWhile is_digit tok; fp = drop 1 (dropWhile is_digit tok)
      in real (decimal_value ip) + real (decimal_value fp) / 10 ^ length fp)"

definition extract_price :: "string \<Rightarrow> real option" where
  "extract_price text =
     (case re_search price_pattern (filter (\<lambda>c. c \<noteq> CHR '','') text) of
        None \<Rightarrow> None
      | Some m \<Rightarrow> Some (float_of (group1 m)))"

text \<open>
  The dictionary that a \<^verbatim>\<open>search_*\<close> method appends to its results, from the product name,
  the retailer, the url, the text of the price element and the text of the product element.
\<close>

definition scraped :: "string \<Rightarrow> string \<Rightarrow> string \<Rightarrow> string \<Rightarrow> string \<Rightarrow> listing" where
  "scraped name rtl link price_text page_text =
     \<lparr>l_name = Some name, l_retailer = Some rtl, l_url = Some link,
      l_price = extract_price price_text, l_drop_date = extract_date page_text\<rparr>"

text \<open>The natural key of a row, the columns of the \<^verbatim>\<open>UNIQUE\<close> constraint.\<close>

definition key_of :: "drop_row \<Rightarrow> string \<times> string \<times> string" where
  "key_of row = (product_name row, retailer row, url row)"

text \<open>
  The loop of \<^verbatim>\<open>run_scan\<close> that saves every result, each call of \<^verbatim>\<open>save_drop\<close> with its
  own clock readings.
\<close>

fun save_drops :: "(clock \<times> listing) list \<Rightarrow> store \<Rightarrow> store" where
  "save_drops [] s = s"
| "save_drops ((clk, l) # rest) s = save_drops rest (save_drop clk l s)"

subsection \<open>Example data\<close>

text \<open>
  The scenario of the specification: a booster box at one retailer, priced 119.99, releasing on
  2025-03-01, first seen at midnight of 2025-02-23.
\<close>

definition feb23 :: datetime where
  "feb23 = \<lparr>year = 2025, month = 2, day = 23, hour = 0, minute = 0, second = 0,
     microsecond = 0\<rparr>"

definition feb24 :: datetime where
  "feb24 = \<lparr>year = 2025, month = 2, day = 24, hour = 0, minute = 0, second = 0,
     microsecond = 0\<rparr>"

definition booster :: listing where
  "booster = \<lparr>l_name = Some ''Booster Box'', l_retailer = Some ''RetailerA'',
     l_url = Some ''http://x/1'', l_price = Some 119.99, l_drop_date = Some ''2025-03-01''\<rparr>"

definition booster_row :: drop_row where
  "booster_row = \<lparr>row_id = 1, product_name = ''Booster Box'', retailer = ''RetailerA'',
     url = ''http://x/1'', price = Some 119.99, drop_date = Some ''2025-03-01'', drop_time = None,
     status = ''upcoming'', discovered_date = ''2025-02-23T00:00:00'',
     last_checked = ''2025-02-23T00:00:00'', notified = 0\<rparr>"

definition booster_store :: store where
  "booster_store = \<lparr>drops = [booster_row], notifications = [], drops_seq = 1,
     notifications_seq = 0\<rparr>"

text \<open>The same store after \<^verbatim>\<open>check_for_alerts\<close> has alerted the drop.\<close>

definition notified_store :: store where
  "notified_store = \<lparr>drops = [booster_row\<lparr>notified := 1\<rparr>],
     notifications = [\<lparr>notification_id = 1, drop_id = 1,
        notification_date = ''2025-02-23T00:00:00'', notification_type = ''7-day-alert''\<rparr>],
     drops_seq = 1, notifications_seq = 1\<rparr>"

text \<open>A later sighting of the same product page that shows neither a price nor a date.\<close>

definition booster_no_price :: listing where
  "booster_no_price = booster\<lparr>l_price := None, l_drop_date := None\<rparr>"

text \<open>A scraped record whose name and url are empty strings.\<close>

definition nameless :: listing where
  "nameless = booster\<lparr>l_name := Some [], l_url := Some []\<rparr>"

text \<open>
  Two more drops: one with no date yet, and one releasing on the same day as the booster box
  but discovered a day later.
\<close>

definition no_date_row :: drop_row where
  "no_date_row = \<lparr>row_id = 2, product_name = ''Elite Trainer Box'', retailer = ''RetailerB'',
     url = ''http://y/2'', price = None, drop_date = None, drop_time = None,
     status = ''upcoming'', discovered_date = ''2025-02-23T00:00:00'',
     last_checked = ''2025-02-23T00:00:00'', notified = 0\<rparr>"

definition later_row :: drop_row where
  "later_row = \<lparr>row_id = 3, product_name = ''Booster Bundle'', retailer = ''RetailerA'',
     url = ''http://x/3'', price = Some 26.99, drop_date = Some ''2025-03-01'', drop_time = None,
     status = ''upcoming'', discovered_date = ''2025-02-24T00:00:00'',
     last_checked = ''2025-02-24T00:00:00'', notified = 0\<rparr>"

definition three_store :: store where
  "three_store = \<lparr>drops = [booster_row, no_date_row, later_row], notifications = [],
     drops_seq = 3, notifications_seq = 0\<rparr>"

definition mar01 :: datetime where
  "mar01 = \<lparr>year = 2025, month = 3, day = 1, hour = 0, minute = 0, second = 0,
     microsecond = 0\<rparr>"

text \<open>
  Clock readings around the release of 2025-03-01, and the booster box after
  \<^verbatim>\<open>check_for_alerts\<close> has alerted it on 2025-02-22.
\<close>

definition feb22_noon :: datetime where
  "feb22_noon = \<lparr>year = 2025, month = 2, day = 22, hour = 12, minute = 0, second = 0,
     microsecond = 0\<rparr>"

definition feb26 :: datetime where
  "feb26 = \<lparr>year = 2025, month = 2, day = 26, hour = 0, minute = 0, second = 0,
     microsecond = 0\<rparr>"

definition mar02_1am :: datetime where
  "mar02_1am = \<lparr>year = 2025, month = 3, day = 2, hour = 1, minute = 0, second = 0,
     microsecond = 0\<rparr>"

definition alerted_row :: drop_row where
  "alerted_row = booster_row\<lparr>discovered_date := ''2025-02-22T00:00:00'',
     last_checked := ''2025-02-22T00:00:00'', notified := 1\<rparr>"

definition alerted_store :: store where
  "alerted_store = \<lparr>drops = [alerted_row],
     notifications = [\<lparr>notification_id = 1, drop_id = 1,
        notification_date = ''2025-02-22T06:00:00'', notification_type = ''7-day-alert''\<rparr>],
     drops_seq = 1, notifications_seq = 1\<rparr>"

text \<open>The booster box with its date as a page prints it.\<close>

definition month_row :: drop_row where
  "month_row = booster_row\<lparr>drop_date := Some ''March 1, 2025''\<rparr>"

text \<open>Two sightings of the booster box, the second with no number in its price text.\<close>

definition priced :: listing where
  "priced = scraped ''Booster Box'' ''RetailerA'' ''http://x/1'' ''$119.99'' ''Ships 2025-03-01''"

definition unpriced :: listing where
  "unpriced = scraped ''Booster Box'' ''RetailerA'' ''http://x/1'' ''Price TBD'' ''Ships 2025-03-01''"

section \<open>Properties\<close>

subsection \<open>Evaluating isoformat\<close>

lemma zero_pad_2: "zero_pad 2 n = [digit_char (n div 10), digit_char n]"
  by (simp add: numeral_2_eq_2)

lemma zero_pad_4:
  "zero_pad 4 n =
     [digit_char (n div 1000), digit_char (n div 100), digit_char (n div 10), digit_char n]"
proof -
  have e: "zero_pad (Suc (Suc (Suc (Suc 0)))) n =
     [digit_char (n div 1000), digit_char (n div 100), digit_char (n div 10), digit_char n]"
    by (simp add: div_mult2_eq[symmetric])
  have "(4::nat) = Suc (Suc (Suc (Suc 0)))" by simp
  then show ?thesis using e by metis
qed

lemma zero_pad_6:
  "zero_pad 6 n =
     [digit_char (n div 100000), digit_char (n div 10000), digit_char (n div 1000),
      digit_char (n div 100), digit_char (n div 10), digit_char n]"
proof -
  have e: "zero_pad (Suc (Suc (Suc (Suc (Suc (Suc 0)))))) n =
     [digit_char (n div 100000), digit_char (n div 10000), digit_char (n div 1000),
      digit_char (n div 100), digit_char (n div 10), digit_char n]"
    by (simp add: div_mult2_eq[symmetric])
  have "(6::nat) = Suc (Suc (Suc (Suc (Suc (Suc 0)))))" by simp
  then show ?thesis using e by metis
qed

lemmas isoformat_eval = isoformat_def zero_pad_2 zero_pad_4 zero_pad_6 digit_char_def

lemma isoformat_feb23: "isoformat feb23 = ''2025-02-23T00:00:00''"
  by (simp add: isoformat_eval feb23_def)

lemma isoformat_feb24: "isoformat feb24 = ''2025-02-24T00:00:00''"
  by (simp add: isoformat_eval feb24_def)

subsection \<open>save_drop\<close>

lemma fold_max_ge: "(seq::int) \<le> fold max ids seq \<and> (\<forall>x\<in>set ids. x \<le> fold max ids seq)"
proof (induction ids arbitrary: seq)
  case Nil
  show ?case by simp
next
  case (Cons i ids)
  from Cons.IH[of "max i seq"] show ?case by auto
qed

lemma next_rowid_fresh: "next_rowid seq ids \<notin> set ids"
  using fold_max_ge[of seq ids] by (auto simp: next_rowid_def)

lemma insert_or_replace_Inr:
  assumes "l_name l = Some n" "l_retailer l = Some r" "l_url l = Some u"
  shows "insert_or_replace clk l s =
     Inr (s\<lparr>drops := filter (\<lambda>row. \<not> same_key l row) (drops s) @
            [\<lparr>row_id = next_rowid (drops_seq s) (map row_id (drops s)), product_name = n,
              retailer = r, url = u, price = l_price l, drop_date = l_drop_date l,
              drop_time = None, status = ''upcoming'', discovered_date = isoformat (clk 0),
              last_checked = isoformat (clk 1), notified = 0\<rparr>],
           drops_seq := next_rowid (drops_seq s) (map row_id (drops s))\<rparr>)"
  using assms by (simp add: insert_or_replace_def Let_def)

lemma same_key_fields:
  "same_key l r \<Longrightarrow>
     l_name l = Some (product_name r) \<and> l_retailer l = Some (retailer r) \<and> l_url l = Some (url r)"
  by (simp add: same_key_def)

lemma filter_same_key_after_insert:
  assumes "same_key l new"
  shows "filter (same_key l) (filter (\<lambda>row. \<not> same_key l row) rows @ [new]) = [new]"
  using assms by (simp add: filter_empty_conv)

text \<open>
  What \<^verbatim>\<open>save_drop\<close> does to a store that already holds a row under the listing's key:
  the insert succeeds, and the only row under the key afterwards is a new one.
\<close>

lemma save_drop_existing:
  assumes "same_key l r"
  shows "insert_or_replace clk l s = Inr (save_drop clk l s)"
    and "drops (save_drop clk l s) =
       filter (\<lambda>row. \<not> same_key l row) (drops s) @
         [\<lparr>row_id = next_rowid (drops_seq s) (map row_id (drops s)),
           product_name = product_name r, retailer = retailer r, url = url r, price = l_price l,
           drop_date = l_drop_date l, drop_time = None, status = ''upcoming'',
           discovered_date = isoformat (clk 0), last_checked = isoformat (clk 1),
           notified = 0\<rparr>]"
  using same_key_fields[OF assms]
    insert_or_replace_Inr[of l "product_name r" "retailer r" "url r" clk s]
  by (simp_all add: save_drop_def)

text \<open>
  Claim C7. For a listing whose natural key is already in the store, the
  \<^verbatim>\<open>INSERT OR REPLACE\<close> of \<^verbatim>\<open>save_drop\<close> succeeds, so the \<^verbatim>\<open>IntegrityError\<close> handler
  with its \<^verbatim>\<open>UPDATE\<close> is not reached, and the whole row is rewritten: the one row under
  the key afterwards has a fresh id, \<^verbatim>\<open>discovered_date\<close> set to the current time and
  \<^verbatim>\<open>notified\<close> back at its default 0, whatever the old row held.
\<close>

theorem save_drop_replaces_existing_row:
  assumes "r \<in> set (drops s)" and "same_key l r"
  shows "insert_or_replace clk l s = Inr (save_drop clk l s) \<and>
    (\<exists>new. filter (same_key l) (drops (save_drop clk l s)) = [new]
       \<and> discovered_date new = isoformat (clk 0) \<and> last_checked new = isoformat (clk 1)
       \<and> notified new = 0 \<and> status new = ''upcoming'' \<and> drop_time new = None
       \<and> row_id new \<notin> set (map row_id (drops s)))"
proof -
  let ?new = "\<lparr>row_id = next_rowid (drops_seq s) (map row_id (drops s)),
      product_name = product_name r, retailer = retailer r, url = url r, price = l_price l,
      drop_date = l_drop_date l, drop_time = None, status = ''upcoming'',
      discovered_date = isoformat (clk 0), last_checked = isoformat (clk 1), notified = 0\<rparr>"
  note sd = save_drop_existing[OF assms(2), of clk s]
  have "same_key l ?new"
    using same_key_fields[OF assms(2)] by (simp add: same_key_def)
  then have f: "filter (same_key l) (drops (save_drop clk l s)) = [?new]"
    unfolding sd(2) by (rule filter_same_key_after_insert)
  have "row_id ?new \<notin> set (map row_id (drops s))"
    using next_rowid_fresh[of "drops_seq s" "map row_id (drops s)"] by simp
  with f sd(1) show ?thesis by simp
qed

theorem save_drop_replaces_existing_row_witness:
  "booster_row\<lparr>notified := 1\<rparr> \<in> set (drops notified_store)
   \<and> same_key booster (booster_row\<lparr>notified := 1\<rparr>)
   \<and> insert_or_replace (\<lambda>k. feb24) booster notified_store
       = Inr (save_drop (\<lambda>k. feb24) booster notified_store)
   \<and> map notified (drops (save_drop (\<lambda>k. feb24) booster notified_store)) = [0]
   \<and> map discovered_date (drops (save_drop (\<lambda>k. feb24) booster notified_store))
       = [''2025-02-24T00:00:00'']"
proof -
  have h1: "booster_row\<lparr>notified := 1\<rparr> \<in> set (drops notified_store)"
    by (simp add: notified_store_def)
  have h2: "same_key booster (booster_row\<lparr>notified := 1\<rparr>)"
    by (simp add: same_key_def booster_def booster_row_def)
  from save_drop_replaces_existing_row[OF h1 h2, of "\<lambda>k. feb24"]
  obtain new where n:
    "insert_or_replace (\<lambda>k. feb24) booster notified_store
       = Inr (save_drop (\<lambda>k. feb24) booster notified_store)"
    "filter (same_key booster) (drops (save_drop (\<lambda>k. feb24) booster notified_store)) = [new]"
    "discovered_date new = isoformat feb24" "notified new = 0"
    by blast
  have "drops (save_drop (\<lambda>k. feb24) booster notified_store) = [new]"
    using n(2) h2
    by (simp add: save_drop_def insert_or_replace_def booster_def notified_store_def
        booster_row_def same_key_def Let_def)
  then show ?thesis using h1 h2 n by (simp add: isoformat_feb24)
qed

lemmas example_defs = booster_def booster_row_def booster_store_def notified_store_def
  booster_no_price_def nameless_def empty_store_def

lemmas save_drop_eval = save_drop_def insert_or_replace_def update_existing_def same_key_def
  next_rowid_def Let_def

text \<open>
  Claim C3, as stated, fails: \<^verbatim>\<open>save_drop\<close> binds \<^verbatim>\<open>drop.get('price')\<close> and
  \<^verbatim>\<open>drop.get('drop_date')\<close> whatever they are. Re-sighting the booster box without a price
  and a date leaves the row with \<^verbatim>\<open>NULL\<close> in both columns.
\<close>

theorem null_price_erases_known_price:
  "same_key booster_no_price booster_row
   \<and> map price (drops booster_store) = [Some 119.99]
   \<and> map drop_date (drops booster_store) = [Some ''2025-03-01'']
   \<and> l_price booster_no_price = None \<and> l_drop_date booster_no_price = None
   \<and> map price (drops (save_drop (\<lambda>k. feb24) booster_no_price booster_store)) = [None]
   \<and> map drop_date (drops (save_drop (\<lambda>k. feb24) booster_no_price booster_store)) = [None]"
  by (simp add: save_drop_eval example_defs)

text \<open>
  Claim C3, amended. For every existing drop and every listing matching its natural key,
  \<^verbatim>\<open>save_drop\<close> leaves one row under the key, whose price and drop date are the listing's
  values, null or not.
\<close>

theorem save_drop_overwrites_price_and_date:
  assumes "r \<in> set (drops s)" and "same_key l r"
  shows "\<exists>new. filter (same_key l) (drops (save_drop clk l s)) = [new]
       \<and> price new = l_price l \<and> drop_date new = l_drop_date l"
proof -
  let ?new = "\<lparr>row_id = next_rowid (drops_seq s) (map row_id (drops s)),
      product_name = product_name r, retailer = retailer r, url = url r, price = l_price l,
      drop_date = l_drop_date l, drop_time = None, status = ''upcoming'',
      discovered_date = isoformat (clk 0), last_checked = isoformat (clk 1), notified = 0\<rparr>"
  have "same_key l ?new"
    using same_key_fields[OF assms(2)] by (simp add: same_key_def)
  then have "filter (same_key l) (drops (save_drop clk l s)) = [?new]"
    unfolding save_drop_existing(2)[OF assms(2)] by (rule filter_same_key_after_insert)
  then show ?thesis by simp
qed

theorem save_drop_overwrites_price_and_date_witness:
  "booster_row \<in> set (drops booster_store) \<and> same_key booster_no_price booster_row
   \<and> (\<exists>new. filter (same_key booster_no_price)
          (drops (save_drop (\<lambda>k. feb24) booster_no_price booster_store)) = [new]
        \<and> price new = None \<and> drop_date new = None)"
proof -
  have h1: "booster_row \<in> set (drops booster_store)" by (simp add: booster_store_def)
  have h2: "same_key booster_no_price booster_row" by (simp add: same_key_def example_defs)
  have h3: "l_price booster_no_price = None" "l_drop_date booster_no_price = None"
    by (simp_all add: booster_no_price_def)
  show ?thesis
    using h1 h2 save_drop_overwrites_price_and_date[OF h1 h2, of "\<lambda>k. feb24"] by (simp add: h3)
qed

text \<open>
  Claim C4 on the code: saving the booster box on 2025-02-23 and again on 2025-02-24 leaves
  one row, discovered on 2025-02-24. The \<^verbatim>\<open>UPDATE\<close> of the \<^verbatim>\<open>IntegrityError\<close> handler,
  run on the same store, keeps the discovery date of 2025-02-23.
\<close>

theorem second_sighting_resets_discovered_date:
  "map discovered_date (drops (save_drop (\<lambda>k. feb23) booster empty_store))
     = [''2025-02-23T00:00:00'']
   \<and> map discovered_date
       (drops (save_drop (\<lambda>k. feb24) booster (save_drop (\<lambda>k. feb23) booster empty_store)))
     = [''2025-02-24T00:00:00'']
   \<and> map discovered_date
       (drops (update_existing feb24 booster (save_drop (\<lambda>k. feb23) booster empty_store)))
     = [''2025-02-23T00:00:00'']"
  by (simp add: save_drop_eval example_defs isoformat_feb23 isoformat_feb24)

text \<open>
  Claim C9, as stated, fails: nothing in the code rejects a record for an empty name or url.
  The record with both empty is inserted like any other.
\<close>

theorem empty_name_is_stored:
  "l_name nameless = Some [] \<and> l_url nameless = Some []
   \<and> insert_or_replace (\<lambda>k. feb23) nameless empty_store
       = Inr (save_drop (\<lambda>k. feb23) nameless empty_store)
   \<and> map product_name (drops (save_drop (\<lambda>k. feb23) nameless empty_store)) = [[]]
   \<and> map url (drops (save_drop (\<lambda>k. feb23) nameless empty_store)) = [[]]"
  by (simp add: save_drop_eval example_defs)

text \<open>
  The only records that \<^verbatim>\<open>save_drop\<close> does not store are those with \<^verbatim>\<open>None\<close> for the name,
  the retailer or the url: the insert raises \<^verbatim>\<open>IntegrityError\<close>, the \<^verbatim>\<open>UPDATE\<close> of the
  handler matches no row, and the store stays as it was.
\<close>

lemma save_drop_null_identity:
  assumes "l_name l = None \<or> l_retailer l = None \<or> l_url l = None"
  shows "insert_or_replace clk l s = Inl IntegrityError" and "save_drop clk l s = s"
proof -
  show i: "insert_or_replace clk l s = Inl IntegrityError"
    using assms by (auto simp: insert_or_replace_def split: option.splits)
  have "\<And>row. \<not> same_key l row" using assms by (auto simp: same_key_def)
  then show "save_drop clk l s = s"
    by (simp add: save_drop_def i update_existing_def)
qed

text \<open>
  Claim C9, amended. \<^verbatim>\<open>save_drop\<close> stores every record whose name, retailer and url are
  not \<^verbatim>\<open>None\<close>, the empty string included: the insert succeeds and the store holds a row
  with the record's identity fields, price and date.
\<close>

theorem save_drop_stores_non_null_identity:
  assumes "l_name l = Some n" and "l_retailer l = Some r" and "l_url l = Some u"
  shows "insert_or_replace clk l s = Inr (save_drop clk l s) \<and>
    (\<exists>new. new \<in> set (drops (save_drop clk l s)) \<and> product_name new = n \<and> retailer new = r
       \<and> url new = u \<and> price new = l_price l \<and> drop_date new = l_drop_date l)"
proof -
  note ins = insert_or_replace_Inr[OF assms, of clk s]
  let ?new = "\<lparr>row_id = next_rowid (drops_seq s) (map row_id (drops s)), product_name = n,
      retailer = r, url = u, price = l_price l, drop_date = l_drop_date l, drop_time = None,
      status = ''upcoming'', discovered_date = isoformat (clk 0),
      last_checked = isoformat (clk 1), notified = 0\<rparr>"
  have "?new \<in> set (drops (save_drop clk l s))"
    by (simp add: save_drop_def ins)
  moreover have "insert_or_replace clk l s = Inr (save_drop clk l s)"
    by (simp add: save_drop_def ins)
  ultimately show ?thesis
    by (intro conjI exI[of _ ?new]) simp_all
qed

theorem save_drop_stores_non_null_identity_witness:
  "l_name nameless = Some [] \<and> l_retailer nameless = Some ''RetailerA'' \<and> l_url nameless = Some []
   \<and> (\<exists>new. new \<in> set (drops (save_drop (\<lambda>k. feb23) nameless empty_store))
         \<and> product_name new = [] \<and> url new = [])"
proof -
  have h: "l_name nameless = Some []" "l_retailer nameless = Some ''RetailerA''"
    "l_url nameless = Some []"
    by (simp_all add: nameless_def booster_def)
  show ?thesis
    using h save_drop_stores_non_null_identity[OF h, of "\<lambda>k. feb23" empty_store] by blast
qed

subsection \<open>get_all_drops\<close>

lemma mset_insort_by: "mset (insort_by le x xs) = add_mset x (mset xs)"
  by (induction xs) auto

lemma mset_order_by: "mset (order_by le xs) = mset xs"
  by (induction xs) (auto simp: mset_insort_by)

lemma set_insort_by: "set (insort_by le x xs) = insert x (set xs)"
  by (induction xs) auto

lemma set_order_by: "set (order_by le xs) = set xs"
  by (induction xs) (auto simp: set_insort_by)

lemma sorted_insort_by:
  assumes total: "\<And>a b. le a b \<or> le b a"
    and trans: "\<And>a b c. le a b \<Longrightarrow> le b c \<Longrightarrow> le a c"
  shows "sorted_wrt le xs \<Longrightarrow> sorted_wrt le (insort_by le x xs)"
proof (induction xs)
  case Nil
  show ?case by simp
next
  case (Cons y ys)
  show ?case
  proof (cases "le x y")
    case True
    have "\<forall>z\<in>set ys. le x z"
      using trans[OF True] Cons.prems by auto
    with True Cons.prems show ?thesis by simp
  next
    case False
    with total have "le y x" by blast
    with False Cons show ?thesis by (simp add: set_insort_by)
  qed
qed

lemma sorted_order_by:
  assumes "\<And>a b. le a b \<or> le b a" and "\<And>a b c. le a b \<Longrightarrow> le b c \<Longrightarrow> le a c"
  shows "sorted_wrt le (order_by le xs)"
  by (induction xs) (auto intro: sorted_insort_by[OF assms])

lemma drops_order_total:
  "drop_date_asc_discovered_desc a b \<or> drop_date_asc_discovered_desc b a"
  by (auto simp: drop_date_asc_discovered_desc_def)

lemma drops_order_trans:
  "drop_date_asc_discovered_desc a b \<Longrightarrow> drop_date_asc_discovered_desc b c \<Longrightarrow>
     drop_date_asc_discovered_desc a c"
  by (auto simp: drop_date_asc_discovered_desc_def)

lemma drops_order_nulls_first:
  "drop_date_asc_discovered_desc a b \<Longrightarrow> drop_date b = None \<Longrightarrow> drop_date a = None"
  by (cases "drop_date a") (auto simp: drop_date_asc_discovered_desc_def)

lemma set_get_all_drops: "set (get_all_drops st s) = {row \<in> set (drops s). status row = st}"
  by (auto simp: get_all_drops_def set_order_by)

lemmas example_rows = no_date_row_def later_row_def three_store_def booster_row_def

text \<open>
  Claim C10, as stated, fails: \<^verbatim>\<open>get_all_drops\<close> orders by
  \<^verbatim>\<open>drop_date ASC, discovered_date DESC\<close>, and SQLite puts \<^verbatim>\<open>NULL\<close> first in ascending
  order. Of three upcoming drops, the one without a date comes first, and of the two with the
  same date the one discovered later comes first.
\<close>

theorem get_all_drops_nulls_first:
  "map status (drops three_store) = [''upcoming'', ''upcoming'', ''upcoming'']
   \<and> map drop_date (drops three_store) = [Some ''2025-03-01'', None, Some ''2025-03-01'']
   \<and> map discovered_date (drops three_store)
       = [''2025-02-23T00:00:00'', ''2025-02-23T00:00:00'', ''2025-02-24T00:00:00'']
   \<and> get_all_drops ''upcoming'' three_store = [no_date_row, later_row, booster_row]"
  by (simp add: get_all_drops_def drop_date_asc_discovered_desc_def example_rows)

text \<open>
  Claim C10, amended. For every store and every status, \<^verbatim>\<open>get_all_drops\<close> returns exactly
  the rows with that status, ordered by the text of \<^verbatim>\<open>drop_date\<close> ascending, ties broken by
  \<^verbatim>\<open>discovered_date\<close> descending; rows with a null \<^verbatim>\<open>drop_date\<close> come first.
\<close>

theorem get_all_drops_order:
  "mset (get_all_drops st s) = mset (filter (\<lambda>row. status row = st) (drops s))
   \<and> sorted_wrt (\<lambda>a b. drop_date a < drop_date b
        \<or> (drop_date a = drop_date b \<and> discovered_date b \<le> discovered_date a))
       (get_all_drops st s)
   \<and> sorted_wrt (\<lambda>a b. drop_date b = None \<longrightarrow> drop_date a = None) (get_all_drops st s)"
proof -
  have s: "sorted_wrt drop_date_asc_discovered_desc (get_all_drops st s)"
    unfolding get_all_drops_def
    by (rule sorted_order_by[OF drops_order_total drops_order_trans])
  have 1: "sorted_wrt (\<lambda>a b. drop_date a < drop_date b
        \<or> (drop_date a = drop_date b \<and> discovered_date b \<le> discovered_date a))
       (get_all_drops st s)"
    using s by (simp add: drop_date_asc_discovered_desc_def[abs_def])
  have 2: "sorted_wrt (\<lambda>a b. drop_date b = None \<longrightarrow> drop_date a = None) (get_all_drops st s)"
    by (rule sorted_wrt_mono_rel[OF _ s]) (auto dest: drops_order_nulls_first)
  show ?thesis using 1 2 by (simp add: get_all_drops_def mset_order_by)
qed

theorem get_all_drops_order_witness:
  "sorted_wrt (\<lambda>a b. drop_date b = None \<longrightarrow> drop_date a = None)
     (get_all_drops ''upcoming'' three_store)
   \<and> map row_id (get_all_drops ''upcoming'' three_store) = [2, 3, 1]"
proof -
  have "get_all_drops ''upcoming'' three_store = [no_date_row, later_row, booster_row]"
    by (simp add: get_all_drops_def drop_date_asc_discovered_desc_def example_rows)
  then show ?thesis
    using get_all_drops_order[of "''upcoming''" three_store] by (simp add: example_rows)
qed

subsection \<open>Evaluating dates\<close>

lemmas fromisoformat_eval = fromisoformat_def parse_isoformat_date_def parse_digits_def
  is_digit_def digit_val_def make_datetime_def days_in_month_def is_leap_def
  parse_isoformat_time_def split_offset_def parse_hh_mm_ss_ff_def parse_fraction_def
  parse_offset_def

lemmas datetime_eval = to_microseconds_def toordinal_def days_before_year_def
  days_before_month_def days_in_month_def is_leap_def upt_rec

lemma fromisoformat_mar01: "fromisoformat ''2025-03-01'' = Inr (mar01, None)"
  by (simp add: fromisoformat_eval mar01_def)

lemma to_microseconds_feb23: "to_microseconds feb23 = 63875952000000000"
  by (simp add: datetime_eval feb23_def)

lemma to_microseconds_feb24: "to_microseconds feb24 = 63876038400000000"
  by (simp add: datetime_eval feb24_def)

lemma to_microseconds_mar01: "to_microseconds mar01 = 63876470400000000"
  by (simp add: datetime_eval mar01_def)

lemma to_microseconds_feb22_noon: "to_microseconds feb22_noon = 63875908800000000"
  by (simp add: datetime_eval feb22_noon_def)
lemma to_microseconds_feb26: "to_microseconds feb26 = 63876211200000000"
  by (simp add: datetime_eval feb26_def)
lemma to_microseconds_mar02_1am: "to_microseconds mar02_1am = 63876560400000000"
  by (simp add: datetime_eval mar02_1am_def)

lemmas example_times = to_microseconds_feb22_noon to_microseconds_feb26 to_microseconds_mar02_1am
  to_microseconds_feb23 to_microseconds_feb24 to_microseconds_mar01

subsection \<open>The alert windows\<close>

lemma fromisoformat_Nil: "fromisoformat [] = Inl ValueError"
  by (simp add: fromisoformat_def)

lemma days_window: "(0 \<le> days diff \<and> days diff \<le> 7) = (0 \<le> diff \<and> diff < td_days 8)"
proof -
  define q where "q = diff div 86400000000"
  define r where "r = diff mod 86400000000"
  have "diff = 86400000000 * q + r" and "0 \<le> r" and "r < 86400000000"
    by (simp_all add: q_def r_def)
  then have "(0 \<le> q \<and> q \<le> 7) = (0 \<le> diff \<and> diff < 8 * 86400000000)"
    by linarith
  then show ?thesis by (simp add: days_def td_days_def q_def)
qed

lemma alert_step_cases:
  assumes "alert_step clk k d s = (fired, s', k')"
  shows "(fired \<and> notified d = 0 \<and> s' = mark_as_notified (clk (Suc k)) (row_id d) s)
       \<or> (\<not> fired \<and> s' = s)"
  using assms
  by (auto simp: alert_step_def split: option.splits if_splits sum.splits)

lemma alert_step_fired:
  assumes "drop_date d = Some ds" and "fromisoformat ds = Inr p"
    and "sub_now p (clk k) = Inr diff"
  shows "fst (alert_step clk k d s) = (notified d = 0 \<and> 0 \<le> diff \<and> diff < td_days 8)"
proof -
  have "ds \<noteq> []" using assms(2) by (auto simp: fromisoformat_Nil)
  then show ?thesis
    using assms by (simp add: alert_step_def days_window[symmetric])
qed

lemma notify_step_diff:
  assumes "drop_date d = Some ds" and "fromisoformat ds = Inr p"
    and "sub_now p now = Inr time_diff"
  shows "notify_step now d = notification_for time_diff"
proof -
  have "ds \<noteq> []" using assms(2) by (auto simp: fromisoformat_Nil)
  then show ?thesis using assms by (simp add: notify_step_def)
qed

text \<open>
  Claim C2, amended. For a drop whose \<^verbatim>\<open>drop_date\<close> parses, with \<open>time_diff\<close> the parsed
  date minus now, \<^verbatim>\<open>check_upcoming_drops\<close> sends "Drop Available NOW" when
  \<open>-1h < time_diff < 0\<close>, "Drop Starting Soon" when \<open>0 < time_diff < 1h\<close>, "Drop Tomorrow" when
  \<open>1h < time_diff < 24h\<close>, "Drop Next Week" when \<open>6d < time_diff < 7d\<close>, and nothing when
  \<open>time_diff \<le> -1h\<close>, \<open>24h \<le> time_diff \<le> 6d\<close> or \<open>7d \<le> time_diff\<close>. Apart from that,
  \<^verbatim>\<open>check_for_alerts\<close> alerts the drop exactly when its \<^verbatim>\<open>notified\<close> flag is clear and
  \<open>0 \<le> time_diff < 8d\<close>, so a drop three days out does produce an alert there.
\<close>

theorem notification_windows:
  assumes "drop_date d = Some ds" and "fromisoformat ds = Inr p"
    and "sub_now p now = Inr time_diff"
  shows "(td_hours (- 1) < time_diff \<and> time_diff < 0
            \<longrightarrow> notify_step now d = Some Drop_Available_NOW)
       \<and> (0 < time_diff \<and> time_diff < td_hours 1
            \<longrightarrow> notify_step now d = Some Drop_Starting_Soon)
       \<and> (td_hours 1 < time_diff \<and> time_diff < td_hours 24
            \<longrightarrow> notify_step now d = Some Drop_Tomorrow)
       \<and> (td_days 6 < time_diff \<and> time_diff < td_days 7
            \<longrightarrow> notify_step now d = Some Drop_Next_Week)
       \<and> (time_diff \<le> td_hours (- 1) \<or> (td_hours 24 \<le> time_diff \<and> time_diff \<le> td_days 6)
            \<or> td_days 7 \<le> time_diff \<longrightarrow> notify_step now d = None)
       \<and> (clk k = now \<longrightarrow>
            fst (alert_step clk k d s)
              = (notified d = 0 \<and> 0 \<le> time_diff \<and> time_diff < td_days 8))"
proof -
  have n: "notify_step now d = notification_for time_diff"
    by (rule notify_step_diff[OF assms])
  have a: "clk k = now \<longrightarrow>
      fst (alert_step clk k d s) = (notified d = 0 \<and> 0 \<le> time_diff \<and> time_diff < td_days 8)"
    using alert_step_fired[OF assms(1,2), of clk k time_diff s] assms(3) by auto
  show ?thesis
    unfolding n using a by (simp add: notification_for_def td_hours_def td_days_def)
qed

lemma sub_now_booster_feb22_noon: "sub_now (mar01, None) feb22_noon = Inr 561600000000"
  by (simp add: sub_now_def example_times)

theorem notification_windows_witness:
  "drop_date booster_row = Some ''2025-03-01'' \<and> fromisoformat ''2025-03-01'' = Inr (mar01, None)
   \<and> sub_now (mar01, None) feb22_noon = Inr 561600000000
   \<and> td_days 6 < 561600000000 \<and> 561600000000 < td_days 7
   \<and> notify_step feb22_noon booster_row = Some Drop_Next_Week
   \<and> fst (alert_step (\<lambda>k. feb22_noon) 0 booster_row booster_store)"
proof -
  have h1: "drop_date booster_row = Some ''2025-03-01''" by (simp add: booster_row_def)
  have h4: "notified booster_row = 0" by (simp add: booster_row_def)
  note w = notification_windows[OF h1 fromisoformat_mar01 sub_now_booster_feb22_noon,
      of "\<lambda>k. feb22_noon" 0 booster_store]
  have d: "td_days 6 < 561600000000 \<and> 561600000000 < td_days 7" by (simp add: td_days_def)
  show ?thesis
    using w h1 h4 d fromisoformat_mar01 sub_now_booster_feb22_noon by (simp add: td_days_def)
qed

lemma get_all_drops_booster_store: "get_all_drops ''upcoming'' booster_store = [booster_row]"
  by (simp add: get_all_drops_def booster_store_def booster_row_def)

text \<open>
  Claim C2, as stated, fails: three days before the release no desktop notification is
  sent, but \<^verbatim>\<open>check_for_alerts\<close> alerts the drop, since it alerts anything from 0 to 7 whole
  days ahead.
\<close>

theorem three_days_out_is_alerted:
  "drop_date booster_row = Some ''2025-03-01'' \<and> fromisoformat ''2025-03-01'' = Inr (mar01, None)
   \<and> sub_now (mar01, None) feb26 = Inr (td_days 3)
   \<and> notification_for (td_days 3) = None
   \<and> fst (check_for_alerts (\<lambda>k. feb26) booster_store) = [booster_row]"
proof -
  have s: "sub_now (mar01, None) feb26 = Inr (td_days 3)"
    by (simp add: sub_now_def example_times td_days_def)
  have "alert_step (\<lambda>k. feb26) 0 booster_row booster_store
      = (True, mark_as_notified feb26 1 booster_store, 2)"
    by (simp add: alert_step_def booster_row_def fromisoformat_mar01 s days_def td_days_def)
  then have "fst (check_for_alerts (\<lambda>k. feb26) booster_store) = [booster_row]"
    by (simp add: check_for_alerts_def get_all_drops_booster_store)
  then show ?thesis
    using s fromisoformat_mar01
    by (simp add: booster_row_def notification_for_def td_days_def td_hours_def)
qed

subsection \<open>What a pass leaves unchanged\<close>

text \<open>
  \<^verbatim>\<open>check_for_alerts\<close> changes the \<^verbatim>\<open>notified\<close> column and the \<^verbatim>\<open>notifications\<close> table, and
  nothing else; \<^verbatim>\<open>check_upcoming_drops\<close> reads neither.
\<close>

lemma mark_as_notified_rows:
  "map (\<lambda>r. r\<lparr>notified := 0\<rparr>) (drops (mark_as_notified now i s))
     = map (\<lambda>r. r\<lparr>notified := 0\<rparr>) (drops s)"
  by (simp add: mark_as_notified_def Let_def)

lemma alerts_loop_rows:
  assumes "alerts_loop clk k ds s = (alerts, s')"
  shows "map (\<lambda>r. r\<lparr>notified := 0\<rparr>) (drops s') = map (\<lambda>r. r\<lparr>notified := 0\<rparr>) (drops s)"
  using assms
proof (induction ds arbitrary: k s alerts s')
  case Nil
  then show ?case by simp
next
  case (Cons d ds)
  obtain fired s1 k1 where st: "alert_step clk k d s = (fired, s1, k1)"
    by (cases "alert_step clk k d s") auto
  obtain as s2 where lp: "alerts_loop clk k1 ds s1 = (as, s2)"
    by (cases "alerts_loop clk k1 ds s1") auto
  from Cons.prems st lp have "s' = s2" by simp
  moreover have "map (\<lambda>r. r\<lparr>notified := 0\<rparr>) (drops s1) = map (\<lambda>r. r\<lparr>notified := 0\<rparr>) (drops s)"
    using alert_step_cases[OF st] by (auto simp: mark_as_notified_rows)
  ultimately show ?case using Cons.IH[OF lp] by simp
qed

lemma alerts_loop_fired:
  assumes "alerts_loop clk k ds s = (alerts, s')"
  shows "\<forall>a\<in>set alerts. \<exists>j s0. fst (alert_step clk j a s0)"
  using assms
proof (induction ds arbitrary: k s alerts s')
  case Nil
  then show ?case by simp
next
  case (Cons d ds)
  obtain fired s1 k1 where st: "alert_step clk k d s = (fired, s1, k1)"
    by (cases "alert_step clk k d s") auto
  obtain as s2 where lp: "alerts_loop clk k1 ds s1 = (as, s2)"
    by (cases "alerts_loop clk k1 ds s1") auto
  from Cons.prems st lp have res: "alerts = (if fired then [d] else []) @ as" by simp
  have "fired \<Longrightarrow> fst (alert_step clk k d s)" using st by simp
  then show ?case using Cons.IH[OF lp] res by (auto split: if_splits)
qed

lemma insort_by_map:
  assumes "\<And>a b. le (g a) (g b) = le a b"
  shows "map g (insort_by le x xs) = insort_by le (g x) (map g xs)"
  by (induction xs) (simp_all add: assms)

lemma order_by_map:
  assumes "\<And>a b. le (g a) (g b) = le a b"
  shows "map g (order_by le xs) = order_by le (map g xs)"
  by (induction xs) (simp_all add: insort_by_map[where le=le and g=g, OF assms])

lemma get_all_drops_rows:
  "map (\<lambda>r. r\<lparr>notified := 0\<rparr>) (get_all_drops st s)
     = order_by drop_date_asc_discovered_desc
         (filter (\<lambda>row. status row = st) (map (\<lambda>r. r\<lparr>notified := 0\<rparr>) (drops s)))"
proof -
  have "map (\<lambda>r. r\<lparr>notified := 0\<rparr>) (get_all_drops st s)
      = order_by drop_date_asc_discovered_desc
          (map (\<lambda>r. r\<lparr>notified := 0\<rparr>) (filter (\<lambda>row. status row = st) (drops s)))"
    unfolding get_all_drops_def
    by (rule order_by_map) (simp add: drop_date_asc_discovered_desc_def)
  then show ?thesis by (simp add: filter_map comp_def)
qed

lemma check_for_alerts_rows:
  "map (\<lambda>r. r\<lparr>notified := 0\<rparr>) (drops (snd (check_for_alerts clk s)))
     = map (\<lambda>r. r\<lparr>notified := 0\<rparr>) (drops s)"
proof -
  obtain alerts s' where 1: "check_for_alerts clk s = (alerts, s')"
    by (cases "check_for_alerts clk s") auto
  show ?thesis
    using alerts_loop_rows[OF 1[unfolded check_for_alerts_def]] by (simp add: 1)
qed

lemma map_filter_map: "List.map_filter h (map g xs) = List.map_filter (\<lambda>x. h (g x)) xs"
  by (induction xs) (simp_all add: List.map_filter_def)

lemma fetched_rows:
  "map (\<lambda>r. r\<lparr>notified := 0\<rparr>)
       (order_by drop_date_asc (filter (\<lambda>row. status row = ''upcoming'') (drops s)))
     = order_by drop_date_asc
         (filter (\<lambda>row. status row = ''upcoming'') (map (\<lambda>r. r\<lparr>notified := 0\<rparr>) (drops s)))"
proof -
  have "map (\<lambda>r. r\<lparr>notified := 0\<rparr>)
       (order_by drop_date_asc (filter (\<lambda>row. status row = ''upcoming'') (drops s)))
      = order_by drop_date_asc
          (map (\<lambda>r. r\<lparr>notified := 0\<rparr>) (filter (\<lambda>row. status row = ''upcoming'') (drops s)))"
    by (rule order_by_map) (simp add: drop_date_asc_def)
  then show ?thesis by (simp add: filter_map comp_def)
qed

lemma check_upcoming_drops_rows:
  "check_upcoming_drops clk s =
     List.map_filter (\<lambda>d. map_option (\<lambda>n. (row_id d, n)) (notify_step (clk 0) d))
       (order_by drop_date_asc
         (filter (\<lambda>row. status row = ''upcoming'') (map (\<lambda>r. r\<lparr>notified := 0\<rparr>) (drops s))))"
  unfolding fetched_rows[symmetric] map_filter_map
  by (simp add: check_upcoming_drops_def notify_step_def)

lemma check_upcoming_drops_ignores_alerts:
  "check_upcoming_drops c (snd (check_for_alerts clk s)) = check_upcoming_drops c s"
  by (simp add: check_upcoming_drops_rows check_for_alerts_rows)

subsection \<open>At most one alert per drop\<close>

lemma mark_as_notified_flags:
  assumes "\<forall>row\<in>set (drops s). row_id row \<in> I \<longrightarrow> notified row \<noteq> 0"
  shows "\<forall>row\<in>set (drops (mark_as_notified now i s)).
           row_id row \<in> insert i I \<longrightarrow> notified row \<noteq> 0"
  using assms by (auto simp: mark_as_notified_def Let_def)

lemma alerts_loop_flags:
  assumes "alerts_loop clk k ds s = (alerts, s')"
    and "\<forall>row\<in>set (drops s). row_id row \<in> I \<longrightarrow> notified row \<noteq> 0"
  shows "(\<forall>row\<in>set (drops s'). row_id row \<in> I \<union> row_id ` set alerts \<longrightarrow> notified row \<noteq> 0)
       \<and> set alerts \<subseteq> set ds \<and> (\<forall>a\<in>set alerts. notified a = 0)"
  using assms
proof (induction ds arbitrary: k s I alerts s')
  case Nil
  then show ?case by simp
next
  case (Cons d ds)
  obtain fired s1 k1 where st: "alert_step clk k d s = (fired, s1, k1)"
    by (cases "alert_step clk k d s") auto
  obtain as s2 where lp: "alerts_loop clk k1 ds s1 = (as, s2)"
    by (cases "alerts_loop clk k1 ds s1") auto
  from Cons.prems(1) st lp have res: "alerts = (if fired then [d] else []) @ as" "s' = s2"
    by simp_all
  show ?case
  proof (cases fired)
    case True
    with alert_step_cases[OF st]
    have n: "notified d = 0" and s1: "s1 = mark_as_notified (clk (Suc k)) (row_id d) s"
      by simp_all
    have "\<forall>row\<in>set (drops s1). row_id row \<in> insert (row_id d) I \<longrightarrow> notified row \<noteq> 0"
      unfolding s1 by (rule mark_as_notified_flags[OF Cons.prems(2)])
    from Cons.IH[OF lp this] n True res show ?thesis by auto
  next
    case False
    with alert_step_cases[OF st] have "s1 = s" by simp
    with Cons.IH[OF lp, of I] Cons.prems(2) False res show ?thesis by auto
  qed
qed

lemma mark_as_notified_marks:
  assumes "\<forall>row\<in>set (drops s). row_id row \<in> I \<longrightarrow> notified row = 1"
  shows "\<forall>row\<in>set (drops (mark_as_notified now i s)).
           row_id row \<in> insert i I \<longrightarrow> notified row = 1"
  using assms by (auto simp: mark_as_notified_def Let_def)

lemma mark_as_notified_logs:
  "\<exists>n. notifications (mark_as_notified now i s) = notifications s @ [n]
       \<and> drop_id n = i \<and> notification_type n = ''7-day-alert''"
  by (simp add: mark_as_notified_def Let_def)

lemma alerts_loop_marks:
  assumes "alerts_loop clk k ds s = (alerts, s')"
    and "\<forall>row\<in>set (drops s). row_id row \<in> I \<longrightarrow> notified row = 1"
  shows "\<forall>row\<in>set (drops s'). row_id row \<in> I \<union> row_id ` set alerts \<longrightarrow> notified row = 1"
  using assms
proof (induction ds arbitrary: k s I alerts s')
  case Nil
  then show ?case by simp
next
  case (Cons d ds)
  obtain fired s1 k1 where st: "alert_step clk k d s = (fired, s1, k1)"
    by (cases "alert_step clk k d s") auto
  obtain as s2 where lp: "alerts_loop clk k1 ds s1 = (as, s2)"
    by (cases "alerts_loop clk k1 ds s1") auto
  from Cons.prems(1) st lp have res: "alerts = (if fired then [d] else []) @ as" "s' = s2"
    by simp_all
  show ?case
  proof (cases fired)
    case True
    with alert_step_cases[OF st]
    have s1: "s1 = mark_as_notified (clk (Suc k)) (row_id d) s" by simp
    have "\<forall>row\<in>set (drops s1). row_id row \<in> insert (row_id d) I \<longrightarrow> notified row = 1"
      unfolding s1 by (rule mark_as_notified_marks[OF Cons.prems(2)])
    from Cons.IH[OF lp this] True res show ?thesis by auto
  next
    case False
    with alert_step_cases[OF st] have "s1 = s" by simp
    with Cons.IH[OF lp, of I] Cons.prems(2) False res show ?thesis by auto
  qed
qed

lemma alerts_loop_logs:
  assumes "alerts_loop clk k ds s = (alerts, s')"
  shows "\<exists>logged. notifications s' = notifications s @ logged
           \<and> map drop_id logged = map row_id alerts
           \<and> (\<forall>n\<in>set logged. notification_type n = ''7-day-alert'')"
  using assms
proof (induction ds arbitrary: k s alerts s')
  case Nil
  then show ?case by simp
next
  case (Cons d ds)
  obtain fired s1 k1 where st: "alert_step clk k d s = (fired, s1, k1)"
    by (cases "alert_step clk k d s") auto
  obtain as s2 where lp: "alerts_loop clk k1 ds s1 = (as, s2)"
    by (cases "alerts_loop clk k1 ds s1") auto
  from Cons.prems st lp have res: "alerts = (if fired then [d] else []) @ as" "s' = s2"
    by simp_all
  from Cons.IH[OF lp] obtain logged where l: "notifications s2 = notifications s1 @ logged"
    "map drop_id logged = map row_id as" "\<forall>n\<in>set logged. notification_type n = ''7-day-alert''"
    by blast
  show ?case
  proof (cases fired)
    case True
    with alert_step_cases[OF st]
    have s1: "s1 = mark_as_notified (clk (Suc k)) (row_id d) s" by simp
    from mark_as_notified_logs[of "clk (Suc k)" "row_id d" s] obtain n
      where n: "notifications s1 = notifications s @ [n]" "drop_id n = row_id d"
        "notification_type n = ''7-day-alert''"
      unfolding s1 by blast
    have "notifications s' = notifications s @ (n # logged)"
      using l(1) n(1) res(2) by simp
    moreover have "map drop_id (n # logged) = map row_id alerts"
      using l(2) n(2) True res(1) by simp
    moreover have "\<forall>m\<in>set (n # logged). notification_type m = ''7-day-alert''"
      using l(3) n(3) by simp
    ultimately show ?thesis by blast
  next
    case False
    with alert_step_cases[OF st] have "s1 = s" by simp
    with l False res show ?thesis by auto
  qed
qed

lemma alerted_rows_remain:
  assumes "a \<in> set (drops s)"
  shows "\<exists>row\<in>set (drops (snd (check_for_alerts clk s))). row_id row = row_id a"
proof -
  let ?g = "\<lambda>r::drop_row. r\<lparr>notified := 0\<rparr>"
  have "?g a \<in> set (map ?g (drops s))" using assms by simp
  then have "?g a \<in> set (map ?g (drops (snd (check_for_alerts clk s))))"
    by (simp only: check_for_alerts_rows)
  then obtain row where r: "row \<in> set (drops (snd (check_for_alerts clk s)))" "?g row = ?g a"
    by auto
  from r(2) have "row_id (?g row) = row_id (?g a)" by simp
  then have "row_id row = row_id a" by simp
  with r(1) show ?thesis by blast
qed

text \<open>
  Claim C1, amended. \<^verbatim>\<open>check_for_alerts\<close> alerts only drops whose \<^verbatim>\<open>notified\<close> flag is
  clear. In the store it leaves, every drop it alerted is still there with \<^verbatim>\<open>notified\<close>
  set to 1, and the \<^verbatim>\<open>notifications\<close> table has grown by one \<^verbatim>\<open>7-day-alert\<close> row for each
  alert, in the order of the alerts. So a later pass over that store, at any clock reading,
  alerts none of them again. \<^verbatim>\<open>check_upcoming_drops\<close> consults no such state: it sends the
  same notifications after the pass as before it.
\<close>

theorem check_for_alerts_at_most_once:
  "(\<forall>a\<in>set (fst (check_for_alerts clk s)). notified a = 0)
   \<and> row_id ` set (fst (check_for_alerts clk s))
       \<inter> row_id ` set (fst (check_for_alerts clk' (snd (check_for_alerts clk s)))) = {}
   \<and> check_upcoming_drops c (snd (check_for_alerts clk s)) = check_upcoming_drops c s
   \<and> (\<forall>a\<in>set (fst (check_for_alerts clk s)).
         (\<exists>row\<in>set (drops (snd (check_for_alerts clk s))). row_id row = row_id a)
         \<and> (\<forall>row\<in>set (drops (snd (check_for_alerts clk s))).
               row_id row = row_id a \<longrightarrow> notified row = 1)
         \<and> (\<exists>n\<in>set (notifications (snd (check_for_alerts clk s))).
               drop_id n = row_id a \<and> notification_type n = ''7-day-alert''))
   \<and> (\<exists>logged. notifications (snd (check_for_alerts clk s)) = notifications s @ logged
         \<and> map drop_id logged = map row_id (fst (check_for_alerts clk s))
         \<and> (\<forall>n\<in>set logged. notification_type n = ''7-day-alert''))"
proof -
  obtain alerts s' where 1: "check_for_alerts clk s = (alerts, s')"
    by (cases "check_for_alerts clk s") auto
  obtain alerts' s'' where 2: "check_for_alerts clk' s' = (alerts', s'')"
    by (cases "check_for_alerts clk' s'") auto
  have f1: "(\<forall>row\<in>set (drops s'). row_id row \<in> {} \<union> row_id ` set alerts \<longrightarrow> notified row \<noteq> 0)
       \<and> set alerts \<subseteq> set (get_all_drops ''upcoming'' s) \<and> (\<forall>a\<in>set alerts. notified a = 0)"
    by (rule alerts_loop_flags[OF 1[unfolded check_for_alerts_def]]) simp
  have f2: "set alerts' \<subseteq> set (get_all_drops ''upcoming'' s') \<and> (\<forall>a\<in>set alerts'. notified a = 0)"
    using alerts_loop_flags[OF 2[unfolded check_for_alerts_def], of "{}"] by simp
  have "row_id ` set alerts \<inter> row_id ` set alerts' = {}"
  proof (rule ccontr)
    assume "row_id ` set alerts \<inter> row_id ` set alerts' \<noteq> {}"
    then obtain a a' where a: "a \<in> set alerts" "a' \<in> set alerts'" "row_id a' = row_id a"
      by force
    from a(2) f2 have "a' \<in> set (drops s')" "notified a' = 0"
      by (auto simp: set_get_all_drops)
    with f1 a(1,3) show False by auto
  qed
  moreover have "check_upcoming_drops c s' = check_upcoming_drops c s"
    using check_upcoming_drops_ignores_alerts[of c clk s] by (simp add: 1)
  moreover have m: "\<forall>row\<in>set (drops s'). row_id row \<in> row_id ` set alerts \<longrightarrow> notified row = 1"
    using alerts_loop_marks[OF 1[unfolded check_for_alerts_def], of "{}"] by simp
  moreover obtain logged where l: "notifications s' = notifications s @ logged"
    "map drop_id logged = map row_id alerts"
    "\<forall>n\<in>set logged. notification_type n = ''7-day-alert''"
    using alerts_loop_logs[OF 1[unfolded check_for_alerts_def]] by blast
  moreover have "\<exists>row\<in>set (drops s'). row_id row = row_id a" if "a \<in> set alerts" for a
  proof -
    from that f1 have "a \<in> set (drops s)" by (auto simp: set_get_all_drops)
    from alerted_rows_remain[OF this, of clk] show ?thesis by (simp add: 1)
  qed
  moreover have "\<exists>n\<in>set (notifications s'). drop_id n = row_id a
      \<and> notification_type n = ''7-day-alert''" if "a \<in> set alerts" for a
  proof -
    from that have "row_id a \<in> set (map drop_id logged)" unfolding l(2) by simp
    then obtain n where "n \<in> set logged" "drop_id n = row_id a" by auto
    with l(1,3) show ?thesis by auto
  qed
  ultimately show ?thesis using f1 by (simp add: 1 2)
qed

lemma get_all_drops_alerted_store: "get_all_drops ''upcoming'' alerted_store = [alerted_row]"
  by (simp add: get_all_drops_def alerted_store_def alerted_row_def booster_row_def)

lemma check_for_alerts_alerted_store:
  "check_for_alerts clk alerted_store = ([], alerted_store)"
  by (simp add: check_for_alerts_def get_all_drops_alerted_store alert_step_def alerted_row_def
      booster_row_def)

lemma alert_step_booster_feb22_noon:
  "alert_step (\<lambda>k. feb22_noon) 0 booster_row booster_store
     = (True, mark_as_notified feb22_noon 1 booster_store, 2)"
  by (simp add: alert_step_def booster_row_def fromisoformat_mar01 sub_now_booster_feb22_noon
      days_def)

lemma isoformat_feb22_noon: "isoformat feb22_noon = ''2025-02-22T12:00:00''"
  by (simp add: isoformat_eval feb22_noon_def)

lemma check_for_alerts_booster_feb22_noon:
  "check_for_alerts (\<lambda>k. feb22_noon) booster_store
     = ([booster_row],
        \<lparr>drops = [booster_row\<lparr>notified := 1\<rparr>],
         notifications = [\<lparr>notification_id = 1, drop_id = 1,
            notification_date = ''2025-02-22T12:00:00'', notification_type = ''7-day-alert''\<rparr>],
         drops_seq = 1, notifications_seq = 1\<rparr>)"
proof -
  have "mark_as_notified feb22_noon 1 booster_store
      = \<lparr>drops = [booster_row\<lparr>notified := 1\<rparr>],
         notifications = [\<lparr>notification_id = 1, drop_id = 1,
            notification_date = ''2025-02-22T12:00:00'', notification_type = ''7-day-alert''\<rparr>],
         drops_seq = 1, notifications_seq = 1\<rparr>"
    by (simp add: mark_as_notified_def booster_store_def next_rowid_def isoformat_feb22_noon
        booster_row_def)
  then show ?thesis
    by (simp add: check_for_alerts_def get_all_drops_booster_store alert_step_booster_feb22_noon)
qed

theorem check_for_alerts_at_most_once_witness:
  "fst (check_for_alerts (\<lambda>k. feb22_noon) booster_store) = [booster_row]
   \<and> notified booster_row = 0
   \<and> row_id ` set (fst (check_for_alerts (\<lambda>k. feb22_noon) booster_store))
       \<inter> row_id ` set (fst (check_for_alerts (\<lambda>k. feb23)
            (snd (check_for_alerts (\<lambda>k. feb22_noon) booster_store)))) = {}
   \<and> map notified (drops (snd (check_for_alerts (\<lambda>k. feb22_noon) booster_store))) = [1]
   \<and> map drop_id (notifications (snd (check_for_alerts (\<lambda>k. feb22_noon) booster_store))) = [1]
   \<and> map notification_type
        (notifications (snd (check_for_alerts (\<lambda>k. feb22_noon) booster_store)))
       = [''7-day-alert'']"
proof -
  note e = check_for_alerts_booster_feb22_noon
  have "row_id ` set (fst (check_for_alerts (\<lambda>k. feb22_noon) booster_store))
       \<inter> row_id ` set (fst (check_for_alerts (\<lambda>k. feb23)
            (snd (check_for_alerts (\<lambda>k. feb22_noon) booster_store)))) = {}"
    using check_for_alerts_at_most_once[of "\<lambda>k. feb22_noon" booster_store "\<lambda>k. feb23"]
    by blast
  moreover have "notified booster_row = 0" by (simp add: booster_row_def)
  ultimately show ?thesis by (simp add: e)
qed

text \<open>
  Claim C1, as stated, fails: \<^verbatim>\<open>check_upcoming_drops\<close> reads neither the \<^verbatim>\<open>notified\<close>
  flag nor the \<^verbatim>\<open>notifications\<close> table and records nothing. For the booster box, already
  flagged and logged for its 7-day alert, a week-ahead notification is sent again six and a
  half days before the release, on every call.
\<close>

theorem desktop_notifier_repeats_fired_tier:
  "map notified (drops alerted_store) = [1]
   \<and> map drop_id (notifications alerted_store) = [1]
   \<and> map notification_type (notifications alerted_store) = [''7-day-alert'']
   \<and> fst (check_for_alerts (\<lambda>k. feb22_noon) alerted_store) = []
   \<and> check_upcoming_drops (\<lambda>k. feb22_noon) alerted_store = [(1, Drop_Next_Week)]"
proof -
  have "notify_step feb22_noon alerted_row = Some Drop_Next_Week"
    by (simp add: notify_step_def alerted_row_def booster_row_def fromisoformat_mar01
        sub_now_booster_feb22_noon notification_for_def td_hours_def td_days_def)
  then have "check_upcoming_drops (\<lambda>k. feb22_noon) alerted_store = [(1, Drop_Next_Week)]"
    by (simp add: check_upcoming_drops_def List.map_filter_def alerted_store_def)
      (simp add: alerted_row_def booster_row_def)
  then show ?thesis
    by (simp add: check_for_alerts_alerted_store) (simp add: alerted_store_def alerted_row_def)
qed

subsection \<open>No pass changes a status\<close>

text \<open>
  Claim C6, amended. No statement of the code writes \<^verbatim>\<open>status\<close>: after
  \<^verbatim>\<open>check_for_alerts\<close> every drop has the status it had. An upcoming drop whose date lies
  more than 24 hours before every clock reading of the pass is neither alerted nor notified,
  stays \<^verbatim>\<open>upcoming\<close> and is still returned by \<^verbatim>\<open>get_all_drops\<close>.
\<close>

theorem past_drop_stays_upcoming:
  assumes "d \<in> set (drops s)" and "status d = ''upcoming''"
    and "drop_date d = Some ds" and "fromisoformat ds = Inr (t, None)"
    and "\<forall>k. to_microseconds t - to_microseconds (clk k) < td_hours (- 24)"
  shows "map status (drops (snd (check_for_alerts clk s))) = map status (drops s)
    \<and> row_id d \<in> set (map row_id (get_all_drops ''upcoming'' (snd (check_for_alerts clk s))))
    \<and> d \<notin> set (fst (check_for_alerts clk s))
    \<and> notify_step (clk 0) d = None"
proof -
  let ?g = "\<lambda>r::drop_row. r\<lparr>notified := 0\<rparr>"
  let ?s' = "snd (check_for_alerts clk s)"
  note rows = check_for_alerts_rows[of clk s]
  have "map (status \<circ> ?g) (drops ?s') = map (status \<circ> ?g) (drops s)"
    using rows by (metis map_map)
  then have 1: "map status (drops ?s') = map status (drops s)"
    by (simp add: comp_def)
  have "map ?g (get_all_drops ''upcoming'' ?s') = map ?g (get_all_drops ''upcoming'' s)"
    by (simp add: get_all_drops_rows rows)
  then have "map (row_id \<circ> ?g) (get_all_drops ''upcoming'' ?s')
      = map (row_id \<circ> ?g) (get_all_drops ''upcoming'' s)"
    by (metis map_map)
  then have "map row_id (get_all_drops ''upcoming'' ?s') = map row_id (get_all_drops ''upcoming'' s)"
    by (simp add: comp_def)
  moreover have "d \<in> set (get_all_drops ''upcoming'' s)"
    using assms(1,2) by (simp add: set_get_all_drops)
  ultimately have 2: "row_id d \<in> set (map row_id (get_all_drops ''upcoming'' ?s'))"
    by simp
  have sub: "sub_now (t, None) (clk k) = Inr (to_microseconds t - to_microseconds (clk k))" for k
    by (simp add: sub_now_def)
  have nofire: "\<not> fst (alert_step clk j d s0)" for j s0
    using alert_step_fired[where clk=clk and k=j and s=s0, OF assms(3,4) sub[of j]] assms(5)
    by (auto simp: td_hours_def dest: spec[of _ j])
  obtain alerts s' where c: "check_for_alerts clk s = (alerts, s')"
    by (cases "check_for_alerts clk s") auto
  have 3: "d \<notin> set (fst (check_for_alerts clk s))"
    using alerts_loop_fired[OF c[unfolded check_for_alerts_def]] nofire by (auto simp: c)
  have 4: "notify_step (clk 0) d = None"
    using notify_step_diff[OF assms(3,4) sub[of 0]] assms(5)
    by (auto simp: notification_for_def td_hours_def td_days_def dest: spec[of _ 0])
  from 1 2 3 4 show ?thesis by simp
qed

lemma alert_step_booster_mar02:
  "alert_step (\<lambda>k. mar02_1am) 0 booster_row booster_store = (False, booster_store, 1)"
  by (simp add: alert_step_def booster_row_def fromisoformat_mar01 sub_now_def example_times
      days_def)

lemma check_for_alerts_booster_mar02:
  "check_for_alerts (\<lambda>k. mar02_1am) booster_store = ([], booster_store)"
  by (simp add: check_for_alerts_def get_all_drops_booster_store alert_step_booster_mar02)

text \<open>
  Claim C6, as stated, fails: twenty-five hours after its release date the booster box is
  still \<^verbatim>\<open>upcoming\<close> after a pass of \<^verbatim>\<open>check_for_alerts\<close>, and \<^verbatim>\<open>get_all_drops\<close> still
  returns it.
\<close>

theorem past_drop_is_not_expired:
  "drop_date booster_row = Some ''2025-03-01'' \<and> fromisoformat ''2025-03-01'' = Inr (mar01, None)
   \<and> to_microseconds mar01 - to_microseconds mar02_1am = td_hours (- 25)
   \<and> map status (drops booster_store) = [''upcoming'']
   \<and> map status (drops (snd (check_for_alerts (\<lambda>k. mar02_1am) booster_store))) = [''upcoming'']
   \<and> get_all_drops ''upcoming'' (snd (check_for_alerts (\<lambda>k. mar02_1am) booster_store))
       = [booster_row]"
  by (simp add: check_for_alerts_booster_mar02 get_all_drops_booster_store fromisoformat_mar01
      example_times td_hours_def) (simp add: booster_store_def booster_row_def)

theorem past_drop_stays_upcoming_witness:
  "booster_row \<in> set (drops booster_store) \<and> status booster_row = ''upcoming''
   \<and> drop_date booster_row = Some ''2025-03-01''
   \<and> fromisoformat ''2025-03-01'' = Inr (mar01, None)
   \<and> (\<forall>k. to_microseconds mar01 - to_microseconds ((\<lambda>k. mar02_1am) k) < td_hours (- 24))
   \<and> row_id booster_row
       \<in> set (map row_id (get_all_drops ''upcoming''
            (snd (check_for_alerts (\<lambda>k. mar02_1am) booster_store))))
   \<and> booster_row \<notin> set (fst (check_for_alerts (\<lambda>k. mar02_1am) booster_store))
   \<and> notify_step mar02_1am booster_row = None"
proof -
  have h1: "booster_row \<in> set (drops booster_store)" by (simp add: booster_store_def)
  have h2: "status booster_row = ''upcoming''" by (simp add: booster_row_def)
  have h3: "drop_date booster_row = Some ''2025-03-01''" by (simp add: booster_row_def)
  have h5: "\<forall>k. to_microseconds mar01 - to_microseconds ((\<lambda>k. mar02_1am) k) < td_hours (- 24)"
    by (simp add: example_times td_hours_def)
  show ?thesis
    using past_drop_stays_upcoming[OF h1 h2 h3 fromisoformat_mar01 h5] h1 h2 h3 h5
      fromisoformat_mar01
    by simp
qed

subsection \<open>Dates that are not in ISO form\<close>

lemmas regex_eval = extract_date_def date_patterns_def mdy_pattern_def month_pattern_def
  iso_pattern_def is_digit_def is_word_def is_space_def Let_def upt_rec

lemma first_some_Some: "first_some xs = Some y \<Longrightarrow> Some y \<in> set xs"
  by (induction xs rule: first_some.induct) auto

lemma match_items_Cons_Some:
  assumes "match_items ((cls, lo, hi) # its) s = Some n"
  shows "\<exists>k j. n = k + j \<and> lo \<le> k \<and> k \<le> length (takeWhile cls s)
           \<and> (\<forall>h. hi = Some h \<longrightarrow> k \<le> h) \<and> match_items its (drop k s) = Some j"
proof -
  define m where "m = (case hi of None \<Rightarrow> length (takeWhile cls s)
                        | Some h \<Rightarrow> min h (length (takeWhile cls s)))"
  have "first_some (map (\<lambda>k. map_option (\<lambda>j. k + j) (match_items its (drop k s)))
                      (rev [lo ..< Suc m])) = Some n"
    using assms by (simp add: m_def Let_def)
  from first_some_Some[OF this]
  have "Some n \<in> (\<lambda>k. map_option (\<lambda>j. k + j) (match_items its (drop k s))) ` {lo ..< Suc m}"
    by (simp only: set_map set_rev set_upt)
  then obtain k where km: "k \<in> {lo ..< Suc m}"
    and e: "Some n = map_option (\<lambda>j. k + j) (match_items its (drop k s))"
    by (rule imageE)
  from km have k: "lo \<le> k" "k \<le> m" by simp_all
  from e obtain j where j: "match_items its (drop k s) = Some j" "n = k + j"
    by (cases "match_items its (drop k s)") auto
  have "k \<le> length (takeWhile cls s)" and "\<forall>h. hi = Some h \<longrightarrow> k \<le> h"
    using k(2) by (auto simp: m_def split: option.splits)
  with k(1) j show ?thesis by blast
qed

lemma takeWhile_prefix:
  assumes "k \<le> length (takeWhile cls s)"
  shows "k \<le> length s \<and> (\<forall>c\<in>set (take k s). cls c)"
proof -
  have le: "length (takeWhile cls s) \<le> length s" by (rule length_takeWhile_le)
  have "take k (takeWhile cls s) = take k (take (length (takeWhile cls s)) s)"
    by (metis takeWhile_eq_take)
  also have "\<dots> = take k s" using assms by (simp add: min_def)
  finally have "set (take k s) \<subseteq> set (takeWhile cls s)" by (metis set_take_subset)
  then show ?thesis using assms le by (auto dest: set_takeWhileD)
qed

lemma match_items_classes:
  "match_items its s = Some n \<Longrightarrow>
     n \<le> length s \<and> (\<forall>c\<in>set (take n s). \<exists>it\<in>set its. fst it c)"
proof (induction its arbitrary: s n)
  case Nil
  then show ?case by simp
next
  case (Cons it its)
  obtain cls lo hi where it: "it = (cls, lo, hi)" by (cases it) auto
  from match_items_Cons_Some[OF Cons.prems[unfolded it]]
  obtain k j where kj: "n = k + j" "k \<le> length (takeWhile cls s)"
    "match_items its (drop k s) = Some j"
    by blast
  note p = takeWhile_prefix[OF kj(2)]
  note r = Cons.IH[OF kj(3)]
  have "take n s = take k s @ take j (drop k s)"
    unfolding kj(1) by (simp add: take_add)
  then show ?case using p r kj(1) by (auto simp: it)
qed

lemma re_search_Some:
  "re_search its s = Some d \<Longrightarrow> \<exists>t n. match_items its t = Some n \<and> d = take n t"
proof (induction s)
  case Nil
  then show ?case by (cases "match_items its []") auto
next
  case (Cons c cs)
  then show ?case by (cases "match_items its (c # cs)") auto
qed

lemma re_search_classes:
  assumes "re_search its s = Some d"
  shows "\<forall>c\<in>set d. \<exists>it\<in>set its. fst it c"
  using re_search_Some[OF assms] match_items_classes by blast

lemma mdy_no_dash:
  assumes "re_search mdy_pattern s = Some d"
  shows "CHR ''-'' \<notin> set d"
proof
  assume "CHR ''-'' \<in> set d"
  with re_search_classes[OF assms] have "\<exists>it\<in>set mdy_pattern. fst it (CHR ''-'')"
    by blast
  then show False by (simp add: mdy_pattern_def is_digit_def)
qed

lemma month_no_dash:
  assumes "re_search month_pattern s = Some d"
  shows "CHR ''-'' \<notin> set d"
proof
  assume "CHR ''-'' \<in> set d"
  with re_search_classes[OF assms] have "\<exists>it\<in>set month_pattern. fst it (CHR ''-'')"
    by blast
  then show False by (simp add: month_pattern_def is_digit_def is_word_def is_space_def)
qed

lemma fromisoformat_Inr_dash:
  assumes "fromisoformat d = Inr p"
  shows "10 \<le> length d \<and> d ! 4 = CHR ''-'' \<and> parse_isoformat_date (take 10 d) \<noteq> None"
  using assms
  by (auto simp: fromisoformat_def parse_isoformat_date_def split: if_splits option.splits)

lemma fromisoformat_Inl: "fromisoformat d = Inl e \<Longrightarrow> e = ValueError"
  by (auto simp: fromisoformat_def make_datetime_def split: if_splits option.splits sum.splits)

lemma no_dash_fromisoformat:
  assumes "CHR ''-'' \<notin> set d"
  shows "fromisoformat d = Inl ValueError"
proof (cases "fromisoformat d")
  case (Inl e)
  then show ?thesis using fromisoformat_Inl by simp
next
  case (Inr p)
  from fromisoformat_Inr_dash[OF Inr] have l: "4 < length d" and e: "d ! 4 = CHR ''-''"
    by simp_all
  from l have "d ! 4 \<in> set d" by (rule nth_mem)
  with assms e show ?thesis by simp
qed

lemma iso_match_length: "match_items iso_pattern t = Some n \<Longrightarrow> n = 10"
  unfolding iso_pattern_def
  by (auto dest!: match_items_Cons_Some simp del: match_items.simps(2))


lemma extract_date_cases:
  assumes "extract_date s = Some d"
  shows "re_search mdy_pattern s = Some d
       \<or> (re_search mdy_pattern s = None \<and> re_search month_pattern s = Some d)
       \<or> (re_search mdy_pattern s = None \<and> re_search month_pattern s = None
            \<and> re_search iso_pattern s = Some d)"
  using assms by (simp add: extract_date_def date_patterns_def split: option.splits)

lemma alert_step_unparsed:
  assumes "drop_date row = Some d" and "fromisoformat d = Inl e"
  shows "alert_step clk k row s = (False, s, k)" and "notify_step now row = None"
  using assms by (simp_all add: alert_step_def notify_step_def)

lemma alert_step_fired_parsed:
  assumes "drop_date row = Some d" and "fst (alert_step clk k row s)"
  shows "\<exists>p. fromisoformat d = Inr p"
  using assms by (cases "fromisoformat d") (auto simp: alert_step_def split: if_splits)

text \<open>
  Claim C8. \<^verbatim>\<open>extract_date\<close> stores the text matched by the first pattern that hits, and
  \<^verbatim>\<open>check_for_alerts\<close> parses it with \<^verbatim>\<open>fromisoformat\<close>. When the first or the second
  pattern hits, the stored text has no dash, the parse raises \<^verbatim>\<open>ValueError\<close>, and the
  drop is skipped: no alert, the store and the clock untouched, and no desktop notification
  either. A drop that is alerted has a date captured by the third pattern, ten characters of
  the form \<^verbatim>\<open>YYYY-MM-DD\<close>.
\<close>

theorem non_iso_dates_never_alert:
  assumes "extract_date text = Some d" and "drop_date row = Some d"
  shows "(re_search mdy_pattern text \<noteq> None \<or> re_search month_pattern text \<noteq> None
            \<longrightarrow> fromisoformat d = Inl ValueError \<and> alert_step clk k row s = (False, s, k)
                \<and> notify_step now row = None)
       \<and> (fst (alert_step clk k row s)
            \<longrightarrow> re_search mdy_pattern text = None \<and> re_search month_pattern text = None
                \<and> re_search iso_pattern text = Some d \<and> length d = 10
                \<and> parse_isoformat_date d \<noteq> None)"
proof (intro conjI impI)
  note c = extract_date_cases[OF assms(1)]
  {
    assume "re_search mdy_pattern text \<noteq> None \<or> re_search month_pattern text \<noteq> None"
    with c have "re_search mdy_pattern text = Some d \<or> re_search month_pattern text = Some d"
      by auto
    then have "CHR ''-'' \<notin> set d" using mdy_no_dash month_no_dash by blast
    then have f: "fromisoformat d = Inl ValueError" by (rule no_dash_fromisoformat)
    show "fromisoformat d = Inl ValueError" by (rule f)
    show "alert_step clk k row s = (False, s, k)" by (rule alert_step_unparsed(1)[OF assms(2) f])
    show "notify_step now row = None" by (rule alert_step_unparsed(2)[OF assms(2) f])
  }
  {
    assume "fst (alert_step clk k row s)"
    from alert_step_fired_parsed[OF assms(2) this] obtain p where p: "fromisoformat d = Inr p"
      by blast
    have dash: "CHR ''-'' \<in> set d"
      using no_dash_fromisoformat[of d] p by auto
    with c mdy_no_dash month_no_dash
    have n: "re_search mdy_pattern text = None" "re_search month_pattern text = None"
      and i: "re_search iso_pattern text = Some d"
      by blast+
    show "re_search mdy_pattern text = None" by (rule n(1))
    show "re_search month_pattern text = None" by (rule n(2))
    show "re_search iso_pattern text = Some d" by (rule i)
    from re_search_Some[OF i] obtain t n where t: "match_items iso_pattern t = Some n" "d = take n t"
      by blast
    from iso_match_length[OF t(1)] match_items_classes[OF t(1)] t(2)
    show l: "length d = 10" by simp
    from fromisoformat_Inr_dash[OF p] l show "parse_isoformat_date d \<noteq> None" by simp
  }
qed

lemma extract_date_month: "extract_date ''March 1, 2025'' = Some ''March 1, 2025''"
  by (simp add: regex_eval)

lemma re_search_month: "re_search month_pattern ''March 1, 2025'' = Some ''March 1, 2025''"
  by (simp add: regex_eval)

theorem non_iso_dates_never_alert_witness:
  "extract_date ''March 1, 2025'' = Some ''March 1, 2025''
   \<and> drop_date month_row = Some ''March 1, 2025''
   \<and> re_search month_pattern ''March 1, 2025'' \<noteq> None
   \<and> fromisoformat ''March 1, 2025'' = Inl ValueError
   \<and> alert_step (\<lambda>k. feb23) 0 month_row booster_store = (False, booster_store, 0)
   \<and> notify_step feb23 month_row = None"
proof -
  have h2: "drop_date month_row = Some ''March 1, 2025''" by (simp add: month_row_def)
  have h3: "re_search month_pattern ''March 1, 2025'' \<noteq> None"
    unfolding re_search_month by simp
  note w = non_iso_dates_never_alert[OF extract_date_month h2,
      of "\<lambda>k. feb23" 0 booster_store feb23]
  from w h3 have "fromisoformat ''March 1, 2025'' = Inl ValueError
      \<and> alert_step (\<lambda>k. feb23) 0 month_row booster_store = (False, booster_store, 0)
      \<and> notify_step feb23 month_row = None"
    by blast
  with extract_date_month h2 h3 show ?thesis by blast
qed

subsection \<open>The natural key\<close>

lemmas price_eval = extract_price_def price_pattern_def group1_def float_of_def decimal_value_def
  digit_val_def is_digit_def Let_def upt_rec

lemma extract_price_dollars: "extract_price ''$119.99'' = Some 119.99"
  by (simp add: price_eval)

lemma extract_price_tbd: "extract_price ''Price TBD'' = None"
  by (simp add: price_eval)

lemma extract_price_thousands: "extract_price ''Now $1,299.50 each'' = Some 1299.5"
  by (simp add: price_eval)

lemma same_key_key_of:
  assumes "l_name l = Some n" "l_retailer l = Some r" "l_url l = Some u"
  shows "same_key l row = (key_of row = (n, r, u))"
  using assms by (auto simp: same_key_def key_of_def)

lemma save_drop_unique_keys:
  assumes "distinct (map key_of (drops s))"
  shows "distinct (map key_of (drops (save_drop clk l s)))"
proof (cases "l_name l = None \<or> l_retailer l = None \<or> l_url l = None")
  case True
  then show ?thesis using assms by (simp add: save_drop_null_identity(2))
next
  case False
  then obtain n r u where k: "l_name l = Some n" "l_retailer l = Some r" "l_url l = Some u"
    by auto
  note sk = same_key_key_of[OF k]
  have "distinct (map key_of (filter (\<lambda>row. \<not> same_key l row) (drops s)))"
    using assms by (rule distinct_map_filter)
  then show ?thesis
    using insert_or_replace_Inr[OF k, of clk s]
    by (auto simp: save_drop_def sk key_of_def)
qed

lemma save_drops_unique_keys:
  "distinct (map key_of (drops s)) \<Longrightarrow> distinct (map key_of (drops (save_drops cls s)))"
proof (induction cls arbitrary: s)
  case Nil
  then show ?case by simp
next
  case (Cons c cls)
  obtain clk l where c: "c = (clk, l)" by (cases c) auto
  show ?case
    unfolding c save_drops.simps
    by (rule Cons.IH) (rule save_drop_unique_keys[OF Cons.prems])
qed

lemma save_drop_key_row:
  assumes "l_name l = Some n" "l_retailer l = Some r" "l_url l = Some u"
  shows "\<exists>new. filter (\<lambda>row. key_of row = (n, r, u)) (drops (save_drop clk l s)) = [new]
           \<and> price new = l_price l \<and> drop_date new = l_drop_date l"
proof -
  note sk = same_key_key_of[OF assms]
  let ?new = "\<lparr>row_id = next_rowid (drops_seq s) (map row_id (drops s)), product_name = n,
      retailer = r, url = u, price = l_price l, drop_date = l_drop_date l, drop_time = None,
      status = ''upcoming'', discovered_date = isoformat (clk 0),
      last_checked = isoformat (clk 1), notified = 0\<rparr>"
  have d: "drops (save_drop clk l s) = filter (\<lambda>row. \<not> same_key l row) (drops s) @ [?new]"
    using insert_or_replace_Inr[OF assms, of clk s] by (simp add: save_drop_def)
  have "same_key l ?new" by (simp add: sk key_of_def)
  then have "filter (same_key l) (drops (save_drop clk l s)) = [?new]"
    unfolding d by (rule filter_same_key_after_insert)
  then have "filter (\<lambda>row. key_of row = (n, r, u)) (drops (save_drop clk l s)) = [?new]"
    by (simp add: sk[abs_def])
  then show ?thesis by simp
qed

text \<open>
  Claim C5, amended. No two rows share a natural key after any sequence of \<^verbatim>\<open>save_drop\<close>
  calls on a store where none did (the empty store for one), and two records with the same
  key saved one after the other leave a single row under it, whose price is the price of the
  second record, null or not.
\<close>

theorem natural_key_unique_last_price_wins:
  assumes "distinct (map key_of (drops s))"
  shows "distinct (map key_of (drops (save_drops cls s)))
    \<and> (l_name l1 = Some n \<and> l_retailer l1 = Some r \<and> l_url l1 = Some u
        \<and> l_name l2 = Some n \<and> l_retailer l2 = Some r \<and> l_url l2 = Some u
       \<longrightarrow> (\<exists>new. filter (\<lambda>row. key_of row = (n, r, u))
                     (drops (save_drops [(c1, l1), (c2, l2)] s)) = [new]
                 \<and> price new = l_price l2))"
  using save_drops_unique_keys[OF assms, of cls]
    save_drop_key_row[of l2 n r u c2 "save_drop c1 l1 s"]
  by auto

lemma priced_eq: "priced = booster"
  by (simp add: priced_def scraped_def booster_def extract_price_dollars regex_eval)

lemma unpriced_eq: "unpriced = booster\<lparr>l_price := None\<rparr>"
  by (simp add: unpriced_def scraped_def booster_def extract_price_tbd regex_eval)

text \<open>
  Claim C5, as stated, fails in its second half: with price texts \<^verbatim>\<open>$119.99\<close> and then
  \<^verbatim>\<open>Price TBD\<close> for the same product page, the single row ends with a null price, not with
  119.99, the latest price that is not null.
\<close>

theorem last_price_null_wins:
  "l_price priced = Some 119.99 \<and> l_price unpriced = None
   \<and> map key_of (drops (save_drops [(\<lambda>k. feb23, priced), (\<lambda>k. feb24, unpriced)] empty_store))
       = [(''Booster Box'', ''RetailerA'', ''http://x/1'')]
   \<and> map price (drops (save_drops [(\<lambda>k. feb23, priced), (\<lambda>k. feb24, unpriced)] empty_store))
       = [None]"
  by (simp add: priced_eq unpriced_eq save_drop_eval key_of_def booster_def empty_store_def)

theorem natural_key_unique_last_price_wins_witness:
  "distinct (map key_of (drops empty_store))
   \<and> distinct (map key_of
        (drops (save_drops [(\<lambda>k. feb23, priced), (\<lambda>k. feb24, unpriced)] empty_store)))
   \<and> (\<exists>new. filter (\<lambda>row. key_of row = (''Booster Box'', ''RetailerA'', ''http://x/1''))
          (drops (save_drops [(\<lambda>k. feb23, unpriced), (\<lambda>k. feb24, priced)] empty_store)) = [new]
        \<and> price new = Some 119.99)"
proof -
  have h: "distinct (map key_of (drops empty_store))" by (simp add: empty_store_def)
  have k: "l_name priced = Some ''Booster Box''" "l_retailer priced = Some ''RetailerA''"
    "l_url priced = Some ''http://x/1''" "l_name unpriced = Some ''Booster Box''"
    "l_retailer unpriced = Some ''RetailerA''" "l_url unpriced = Some ''http://x/1''"
    "l_price priced = Some 119.99"
    by (simp_all add: priced_eq unpriced_eq booster_def)
  from natural_key_unique_last_price_wins[OF h,
      of "[(\<lambda>k. feb23, priced), (\<lambda>k. feb24, unpriced)]"]
  have 1: "distinct (map key_of
        (drops (save_drops [(\<lambda>k. feb23, priced), (\<lambda>k. feb24, unpriced)] empty_store)))"
    by blast
  from natural_key_unique_last_price_wins[OF h, of "[]" unpriced "''Booster Box''" "''RetailerA''"
      "''http://x/1''" priced "\<lambda>k. feb23" "\<lambda>k. feb24"] k
  have 2: "\<exists>new. filter (\<lambda>row. key_of row = (''Booster Box'', ''RetailerA'', ''http://x/1''))
          (drops (save_drops [(\<lambda>k. feb23, unpriced), (\<lambda>k. feb24, priced)] empty_store)) = [new]
        \<and> price new = Some 119.99"
    by simp
  from h 1 2 show ?thesis by blast
qed

subsection \<open>Re-sighting an alerted drop\<close>

text \<open>
  The re-arming at work: the booster box, already alerted, is sighted again on 2025-02-24, and
  the next \<^verbatim>\<open>check_for_alerts\<close> alerts it a second time.
\<close>

lemma resighting_rearms_alert:
  "fst (check_for_alerts (\<lambda>k. feb24) notified_store) = []
   \<and> map row_id (fst (check_for_alerts (\<lambda>k. feb24)
         (save_drop (\<lambda>k. feb24) booster notified_store))) = [2]"
proof -
  let ?new = "booster_row\<lparr>row_id := 2, discovered_date := ''2025-02-24T00:00:00'',
      last_checked := ''2025-02-24T00:00:00''\<rparr>"
  let ?s = "save_drop (\<lambda>k. feb24) booster notified_store"
  have d: "drops ?s = [?new]"
    by (simp add: save_drop_eval example_defs isoformat_feb24)
  have g: "get_all_drops ''upcoming'' ?s = [?new]"
    by (simp add: get_all_drops_def d) (simp add: booster_row_def)
  have "sub_now (mar01, None) feb24 = Inr (td_days 5)"
    by (simp add: sub_now_def example_times td_days_def)
  then have "fst (alert_step (\<lambda>k. feb24) 0 ?new ?s)"
    by (simp add: alert_step_def booster_row_def fromisoformat_mar01 days_def td_days_def)
  then obtain s1 k1 where "alert_step (\<lambda>k. feb24) 0 ?new ?s = (True, s1, k1)"
    by (cases "alert_step (\<lambda>k. feb24) 0 ?new ?s") auto
  then have 2: "map row_id (fst (check_for_alerts (\<lambda>k. feb24) ?s)) = [2]"
    by (simp add: check_for_alerts_def g)
  have "get_all_drops ''upcoming'' notified_store = [booster_row\<lparr>notified := 1\<rparr>]"
    by (simp add: get_all_drops_def notified_store_def booster_row_def)
  then have 1: "fst (check_for_alerts (\<lambda>k. feb24) notified_store) = []"
    by (simp add: check_for_alerts_def alert_step_def booster_row_def)
  from 1 2 show ?thesis by simp
qed

end
